theory Spec2Isabelle
  imports Complex_Main
begin

section \<open>Phaser.Text (src/gameobjects/Text.js): a shallow embedding\<close>

text \<open>
  The embedding follows \<^verbatim>\<open>Text.js\<close> function by function and keeps its names.
  Conventions:
  \<^item> a JavaScript string is a \<open>string\<close>; its code units are the 8-bit characters
    of \<open>char\<close>, so the model covers strings of code units below 256;
  \<^item> a JavaScript number that is always a number in the code is a \<open>real\<close>;
    a number that comes out of an array read, and so can be \<^verbatim>\<open>undefined\<close> turned
    \<^verbatim>\<open>NaN\<close>, is a \<open>jsnum\<close>;
  \<^item> the arithmetic is that of the reals, but in \<open>runWordWrap\<close>, where a comparison
    of computed widths decides where a line breaks: there every sum and difference goes
    through the rounding of the double arithmetic, a parameter (the field \<open>toDouble\<close>
    of the host);
  \<^item> \<^verbatim>\<open>undefined\<close> and \<^verbatim>\<open>null\<close> are \<open>None\<close>; a thrown \<^verbatim>\<open>TypeError\<close> is \<open>Inl TypeError\<close>;
  \<^item> the object is the record \<open>phaserText\<close>, every method takes it and returns it updated;
  \<^item> what the host supplies (text measurement, font metrics, \<^verbatim>\<open>Phaser.Math.snapToCeil\<close>,
    number formatting) is the record \<open>host\<close>, a parameter of the methods that use it.
\<close>

subsection \<open>JavaScript values\<close>

datatype jsnum = Val real | NaN

fun lift2 :: "(real \<Rightarrow> real \<Rightarrow> real) \<Rightarrow> jsnum \<Rightarrow> jsnum \<Rightarrow> jsnum" where
  "lift2 f (Val a) (Val b) = Val (f a b)"
| "lift2 f _ _ = NaN"

definition jadd :: "jsnum \<Rightarrow> jsnum \<Rightarrow> jsnum" where
  "jadd = lift2 (\<lambda>a b. a + b)"

definition jsub :: "jsnum \<Rightarrow> jsnum \<Rightarrow> jsnum" where
  "jsub = lift2 (\<lambda>a b. a - b)"

definition jmul :: "jsnum \<Rightarrow> jsnum \<Rightarrow> jsnum" where
  "jmul = lift2 (\<lambda>a b. a * b)"

definition jdiv :: "jsnum \<Rightarrow> jsnum \<Rightarrow> jsnum" where
  "jdiv = lift2 (\<lambda>a b. a / b)"

definition jmax :: "jsnum \<Rightarrow> jsnum \<Rightarrow> jsnum" where
  \<comment> \<open>\<^verbatim>\<open>Math.max\<close>: \<^verbatim>\<open>NaN\<close> as soon as one argument is.\<close>
  "jmax = lift2 max"

definition mathCeil :: "real \<Rightarrow> real" where
  "mathCeil v = of_int \<lceil>v\<rceil>"

definition mathRound :: "real \<Rightarrow> real" where
  \<comment> \<open>\<^verbatim>\<open>Math.round\<close> rounds a half up.\<close>
  "mathRound v = of_int \<lfloor>v + 1 / 2\<rfloor>"

fun jceil :: "jsnum \<Rightarrow> jsnum" where
  "jceil (Val a) = Val (mathCeil a)"
| "jceil NaN = NaN"

fun jround :: "jsnum \<Rightarrow> jsnum" where
  "jround (Val a) = Val (mathRound a)"
| "jround NaN = NaN"

definition jneg :: "jsnum \<Rightarrow> jsnum" where
  "jneg v = (case v of Val a \<Rightarrow> Val (- a) | NaN \<Rightarrow> NaN)"

definition arrayGet :: "real list \<Rightarrow> nat \<Rightarrow> jsnum" where
  \<comment> \<open>\<^verbatim>\<open>a[i]\<close> used as a number: an index past the end reads \<^verbatim>\<open>undefined\<close>,
      which arithmetic turns into \<^verbatim>\<open>NaN\<close>.\<close>
  "arrayGet a i = (if i < length a then Val (a ! i) else NaN)"

definition truthy :: "string option \<Rightarrow> bool" where
  \<comment> \<open>Truthiness of a value that is a string, \<^verbatim>\<open>undefined\<close> or \<^verbatim>\<open>null\<close>.\<close>
  "truthy v = (case v of None \<Rightarrow> False | Some s \<Rightarrow> s \<noteq> [])"

definition orString :: "string option \<Rightarrow> string \<Rightarrow> string" where
  \<comment> \<open>\<^verbatim>\<open>v || d\<close> for such a value.\<close>
  "orString v d = (case v of None \<Rightarrow> d | Some s \<Rightarrow> if s \<noteq> [] then s else d)"

definition orNumber :: "real option \<Rightarrow> real \<Rightarrow> real" where
  \<comment> \<open>\<^verbatim>\<open>v || d\<close> for a number or \<^verbatim>\<open>undefined\<close>: 0 is falsy.\<close>
  "orNumber v d = (case v of None \<Rightarrow> d | Some a \<Rightarrow> if a \<noteq> 0 then a else d)"

fun splitOn :: "char \<Rightarrow> string \<Rightarrow> string \<Rightarrow> string list" where
  \<comment> \<open>\<^verbatim>\<open>s.split(c)\<close> for a one-character separator; the second argument is the
      piece being read, reversed. The empty string splits into one empty piece.\<close>
  "splitOn sep cur [] = [rev cur]"
| "splitOn sep cur (c # cs) =
     (if c = sep then rev cur # splitOn sep [] cs else splitOn sep (c # cur) cs)"

definition split :: "char \<Rightarrow> string \<Rightarrow> string list" where
  "split sep s = splitOn sep [] s"

fun splitNewlines :: "string \<Rightarrow> string \<Rightarrow> string list" where
  \<comment> \<open>\<^verbatim>\<open>s.split(/(?:\r\n|\r|\n)/)\<close>\<close>
  "splitNewlines cur [] = [rev cur]"
| "splitNewlines cur (c # cs) =
     (if c = CHR 0x0D then
        (case cs of
           d # ds \<Rightarrow> if d = CHR 0x0A then rev cur # splitNewlines [] ds
                    else rev cur # splitNewlines [] cs
         | [] \<Rightarrow> rev cur # splitNewlines [] cs)
      else if c = CHR 0x0A then rev cur # splitNewlines [] cs
      else splitNewlines (c # cur) cs)"

fun join :: "string \<Rightarrow> string list \<Rightarrow> string" where
  \<comment> \<open>\<^verbatim>\<open>parts.join(sep)\<close>\<close>
  "join sep [] = []"
| "join sep [a] = a"
| "join sep (a # b # bs) = a @ sep @ join sep (b # bs)"

subsection \<open>The regular expression of fontToComponents\<close>

text \<open>
  A backtracking matcher in the style of the ECMAScript specification: a matcher takes a
  continuation and a position and returns the first successful result in priority
  order. A position is the input read so far (reversed) and the input left.
\<close>

definition isWordChar :: "char \<Rightarrow> bool" where
  \<comment> \<open>\<^verbatim>\<open>\w\<close>\<close>
  "isWordChar c =
     (c \<in> set ''abcdefghijklmnopqrstuvwxyzABCDEFGHIJKLMNOPQRSTUVWXYZ0123456789_'')"

definition isSpace :: "char \<Rightarrow> bool" where
  \<comment> \<open>\<^verbatim>\<open>\s\<close>, among the code units below 256: tab, LF, VT, FF, CR, space, NBSP\<close>
  "isSpace c =
     (c \<in> set [CHR 0x09, CHR 0x0A, CHR 0x0B, CHR 0x0C, CHR 0x0D, CHR 0x20, CHR 0xA0])"

definition isDigit :: "char \<Rightarrow> bool" where
  \<comment> \<open>\<^verbatim>\<open>\d\<close>\<close>
  "isDigit c = (c \<in> set ''0123456789'')"

definition isLower :: "char \<Rightarrow> bool" where
  \<comment> \<open>\<^verbatim>\<open>[a-z]\<close>\<close>
  "isLower c = (c \<in> set ''abcdefghijklmnopqrstuvwxyz'')"

definition isDot :: "char \<Rightarrow> bool" where
  \<comment> \<open>\<^verbatim>\<open>.\<close>: any code unit but a line terminator (LF and CR below 256)\<close>
  "isDot c = (c \<noteq> CHR 0x0A \<and> c \<noteq> CHR 0x0D)"

type_synonym pos = "string \<times> string"
type_synonym 'a cont = "pos \<Rightarrow> 'a option"
type_synonym 'a matcher = "'a cont \<Rightarrow> pos \<Rightarrow> 'a option"

definition orElse :: "'a option \<Rightarrow> 'a option \<Rightarrow> 'a option" where
  \<comment> \<open>backtracking: the second choice is taken when the first fails\<close>
  "orElse a b = (case a of Some v \<Rightarrow> Some v | None \<Rightarrow> b)"

fun star :: "(char \<Rightarrow> bool) \<Rightarrow> 'a matcher" where
  \<comment> \<open>\<^verbatim>\<open>C*\<close> for a character class, greedy\<close>
  "star P k (p, []) = k (p, [])"
| "star P k (p, c # r) =
     (if P c then orElse (star P k (c # p, r)) (k (p, c # r)) else k (p, c # r))"

fun rep :: "(char \<Rightarrow> bool) \<Rightarrow> nat \<Rightarrow> nat \<Rightarrow> 'a matcher" where
  \<comment> \<open>\<^verbatim>\<open>C{lo,hi}\<close> for a character class, greedy: \<open>rep P lo n\<close> still needs \<open>lo\<close>
      characters and may take \<open>n\<close>\<close>
  "rep P lo 0 k x = (if lo = 0 then k x else None)"
| "rep P lo (Suc n) k (p, []) = (if lo = 0 then k (p, []) else None)"
| "rep P lo (Suc n) k (p, c # r) =
     (if P c then orElse (rep P (lo - 1) n k (c # p, r)) (if lo = 0 then k (p, c # r) else None)
      else if lo = 0 then k (p, c # r) else None)"

definition wordBoundary :: "pos \<Rightarrow> bool" where
  \<comment> \<open>\<^verbatim>\<open>\b\<close>: exactly one of the two neighbours is a word character\<close>
  "wordBoundary x = (case x of (p, r) \<Rightarrow>
     (case p of [] \<Rightarrow> False | a # _ \<Rightarrow> isWordChar a) \<noteq>
     (case r of [] \<Rightarrow> False | b # _ \<Rightarrow> isWordChar b))"

definition wordb :: "'a matcher" where
  "wordb k x = (if wordBoundary x then k x else None)"

definition lit :: "string \<Rightarrow> 'a matcher" where
  "lit w k x = (case x of (p, r) \<Rightarrow>
     if take (length w) r = w then k (rev w @ p, drop (length w) r) else None)"

fun alt :: "'a matcher list \<Rightarrow> 'a matcher" where
  \<comment> \<open>\<^verbatim>\<open>a|b|c\<close>: the alternatives in order\<close>
  "alt [] k x = None"
| "alt (m # ms) k x = orElse (m k x) (alt ms k x)"

definition opt :: "'a matcher \<Rightarrow> 'a matcher" where
  \<comment> \<open>\<^verbatim>\<open>(?:a)?\<close>, greedy\<close>
  "opt m k x = orElse (m k x) (k x)"

definition eos :: "'a matcher" where
  \<comment> \<open>\<^verbatim>\<open>$\<close> (no multiline flag)\<close>
  "eos k x = (if snd x = [] then k x else None)"

definition matched :: "pos \<Rightarrow> pos \<Rightarrow> string" where
  \<comment> \<open>the input between two positions\<close>
  "matched x y = take (length (snd x) - length (snd y)) (snd x)"

definition capture :: "'a matcher \<Rightarrow> (string \<Rightarrow> 'a cont) \<Rightarrow> pos \<Rightarrow> 'a option" where
  \<comment> \<open>\<^verbatim>\<open>(a)\<close>: the continuation receives what the group matched\<close>
  "capture m k x = m (\<lambda>y. k (matched x y) y) x"

definition optGroup :: "'a matcher \<Rightarrow> (string option \<Rightarrow> 'a cont) \<Rightarrow> pos \<Rightarrow> 'a option" where
  \<comment> \<open>\<^verbatim>\<open>(a)?\<close>: the capture is \<^verbatim>\<open>undefined\<close> when the group is skipped\<close>
  "optGroup m k x = orElse (capture m (\<lambda>s. k (Some s)) x) (k None x)"

definition styleWords :: "string list" where
  "styleWords = [''normal'', ''italic'', ''oblique'', ''inherit'']"

definition variantWords :: "string list" where
  "variantWords = [''normal'', ''small-caps'', ''inherit'']"

definition weightWords :: "string list" where
  "weightWords = [''normal'', ''bold'', ''bolder'', ''lighter'', ''100'', ''200'', ''300'',
     ''400'', ''500'', ''600'', ''700'', ''800'', ''900'', ''inherit'']"

definition sizeWords :: "string list" where
  "sizeWords = [''xx-small'', ''x-small'', ''small'', ''medium'', ''large'', ''x-large'',
     ''xx-large'', ''larger'', ''smaller'', ''0'']"

definition sizeNumeric :: "'a matcher" where
  \<comment> \<open>\<^verbatim>\<open>\d*(?:[.]\d*)?(?:%|[a-z]{2,5})\<close>\<close>
  "sizeNumeric k =
     star isDigit (opt (\<lambda>k'. lit ''.'' (star isDigit k')) (alt [lit ''%'', rep isLower 2 5] k))"

type_synonym groups =
  "string option \<times> string option \<times> string option \<times> string option \<times> string"

definition familyK ::
  "string option \<Rightarrow> string option \<Rightarrow> string option \<Rightarrow> string option \<Rightarrow> groups cont" where
  \<comment> \<open>\<^verbatim>\<open>\s*(.*)\s*$\<close>\<close>
  "familyK m1 m2 m3 m4 =
     star isSpace (capture (star isDot)
       (\<lambda>m5. star isSpace (eos (\<lambda>_. Some (m1, m2, m3, m4, m5)))))"

definition sizeK :: "string option \<Rightarrow> string option \<Rightarrow> string option \<Rightarrow> groups cont" where
  \<comment> \<open>\<^verbatim>\<open>\s*(?:\b(xx-small|...|0|\d*(?:[.]\d*)?(?:%|[a-z]{2,5}))?\b)\<close> and the rest\<close>
  "sizeK m1 m2 m3 =
     star isSpace (wordb (optGroup (alt (map lit sizeWords @ [sizeNumeric]))
       (\<lambda>m4. wordb (familyK m1 m2 m3 m4))))"

definition weightK :: "string option \<Rightarrow> string option \<Rightarrow> groups cont" where
  \<comment> \<open>\<^verbatim>\<open>\s*(?:\b(normal|bold|bolder|lighter|100|...|900|inherit)?\b)\<close> and the rest\<close>
  "weightK m1 m2 =
     star isSpace (wordb (optGroup (alt (map lit weightWords))
       (\<lambda>m3. wordb (sizeK m1 m2 m3))))"

definition variantK :: "string option \<Rightarrow> groups cont" where
  \<comment> \<open>\<^verbatim>\<open>\s*(?:\b(normal|small-caps|inherit)?\b)\<close> and the rest\<close>
  "variantK m1 =
     star isSpace (wordb (optGroup (alt (map lit variantWords))
       (\<lambda>m2. wordb (weightK m1 m2))))"

definition fontRegex :: "string \<Rightarrow> groups option" where
  \<comment> \<open>\<^verbatim>\<open>font.match(/^\s*(?:\b(normal|italic|oblique|inherit)?\b) ... $/)\<close>: the five
      groups of the match, \<open>None\<close> when the string does not match\<close>
  "fontRegex font =
     star isSpace (wordb (optGroup (alt (map lit styleWords))
       (\<lambda>m1. wordb (variantK m1)))) ([], font)"

subsection \<open>Font components\<close>

record components =
  font :: string
  fontStyle :: "string option"
  fontVariant :: "string option"
  fontWeight :: "string option"
  fontSize :: "string option"
  fontFamily :: "string option"

definition fontToComponents :: "string \<Rightarrow> components" where
  \<comment> \<open>The warning on the console for an unparsable font is not modelled.\<close>
  "fontToComponents fnt =
     (case fontRegex fnt of
        Some (m1, m2, m3, m4, m5) \<Rightarrow>
          \<lparr> font = fnt,
            fontStyle = Some (orString m1 ''normal''),
            fontVariant = Some (orString m2 ''normal''),
            fontWeight = Some (orString m3 ''normal''),
            fontSize = Some (orString m4 ''medium''),
            fontFamily = Some m5 \<rparr>
      | None \<Rightarrow>
          \<lparr> font = fnt, fontStyle = None, fontVariant = None, fontWeight = None,
            fontSize = None, fontFamily = None \<rparr>)"

definition pushUnless :: "string option \<Rightarrow> string \<Rightarrow> string list \<Rightarrow> string list" where
  \<comment> \<open>\<^verbatim>\<open>if (v && v !== neutral) { parts.push(v); }\<close>\<close>
  "pushUnless v neutral parts =
     (case v of
        Some s \<Rightarrow> if s \<noteq> [] \<and> s \<noteq> neutral then parts @ [s] else parts
      | None \<Rightarrow> parts)"

definition pushIf :: "string option \<Rightarrow> string list \<Rightarrow> string list" where
  \<comment> \<open>\<^verbatim>\<open>if (v) { parts.push(v); }\<close>\<close>
  "pushIf v parts = (case v of Some s \<Rightarrow> if s \<noteq> [] then parts @ [s] else parts | None \<Rightarrow> parts)"

definition componentsToFont :: "components \<Rightarrow> string" where
  "componentsToFont c =
     (let parts = [];
          parts = pushUnless (fontStyle c) ''normal'' parts;
          parts = pushUnless (fontVariant c) ''normal'' parts;
          parts = pushUnless (fontWeight c) ''normal'' parts;
          parts = pushUnless (fontSize c) ''medium'' parts;
          parts = pushIf (fontFamily c) parts;
          parts = (if parts = [] then parts @ [font c] else parts)
      in join '' '' parts)"

subsection \<open>Word wrap\<close>

text \<open>
  The widths are doubles, and the loop adds, subtracts and compares them. The sum and the
  difference of two doubles \<open>x\<close> and \<open>y\<close> are \<open>fl (x + y)\<close> and \<open>fl (x - y)\<close>, where
  \<open>fl\<close> rounds a real to a double; \<open>fl\<close> is a parameter.
\<close>

fun wrapWords ::
  "(real \<Rightarrow> real) \<Rightarrow> (string \<Rightarrow> real) \<Rightarrow> real \<Rightarrow> string list \<Rightarrow> nat \<Rightarrow> real \<Rightarrow> string \<Rightarrow> string" where
  \<comment> \<open>The loop over the words of one line: \<open>j\<close> is the index of the next word,
      the last two arguments are \<^verbatim>\<open>spaceLeft\<close> and \<^verbatim>\<open>result\<close>.\<close>
  "wrapWords fl m wordWrapWidth [] j spaceLeft result = result"
| "wrapWords fl m wordWrapWidth (word # words) j spaceLeft result =
     (let wordWidth = m word;
          wordWidthWithSpace = fl (wordWidth + m '' '')
      in if wordWidthWithSpace > spaceLeft then
           wrapWords fl m wordWrapWidth words (j + 1) (fl (wordWrapWidth - wordWidth))
             ((if j > 0 then result @ [CHR 0x0A] else result) @ word @ '' '')
         else
           wrapWords fl m wordWrapWidth words (j + 1) (fl (spaceLeft - wordWidthWithSpace))
             (result @ word @ '' ''))"

fun wrapLines ::
  "(real \<Rightarrow> real) \<Rightarrow> (string \<Rightarrow> real) \<Rightarrow> real \<Rightarrow> string list \<Rightarrow> string \<Rightarrow> string" where
  \<comment> \<open>The loop over the lines; \<^verbatim>\<open>i < lines.length - 1\<close> holds when lines are left.\<close>
  "wrapLines fl m wordWrapWidth [] result = result"
| "wrapLines fl m wordWrapWidth (line # lines) result =
     (let result = wrapWords fl m wordWrapWidth (split (CHR '' '') line) 0 wordWrapWidth result;
          result = (if lines \<noteq> [] then result @ [CHR 0x0A] else result)
      in wrapLines fl m wordWrapWidth lines result)"

definition runWordWrap :: "(real \<Rightarrow> real) \<Rightarrow> (string \<Rightarrow> real) \<Rightarrow> real \<Rightarrow> string \<Rightarrow> string" where
  \<comment> \<open>\<open>m\<close> is \<^verbatim>\<open>this.context.measureText(_).width\<close> under the current font,
      the argument after it is \<^verbatim>\<open>this.style.wordWrapWidth\<close>.\<close>
  "runWordWrap fl m wordWrapWidth txt = wrapLines fl m wordWrapWidth (split (CHR 0x0A) txt) []"

subsection \<open>The object\<close>

datatype tabs = TabSize real | TabStops nat "real list"
  \<comment> \<open>\<^verbatim>\<open>style.tabs\<close>: a number, or an array. An array is an object: the first
      component of \<open>TabStops\<close> is its identity, which is what \<^verbatim>\<open>!==\<close> compares.\<close>

fun tabsStrictEq :: "tabs \<Rightarrow> tabs \<Rightarrow> bool" where
  "tabsStrictEq (TabSize a) (TabSize b) = (a = b)"
| "tabsStrictEq (TabStops i _) (TabStops j _) = (i = j)"
| "tabsStrictEq _ _ = False"

record style =
  style_font :: string
  style_fontStyle :: "string option"
  style_fontVariant :: "string option"
  style_fontWeight :: "string option"
  style_fontSize :: "string option"
  backgroundColor :: "string option"
  fill :: string
  align :: string
  boundsAlignH :: string
  boundsAlignV :: string
  stroke :: string
  strokeThickness :: real
  wordWrap :: bool
  wordWrapWidth :: real
  shadowOffsetX :: real
  shadowOffsetY :: real
  shadowColor :: string
  shadowBlur :: real
  shadowStroke :: "bool option"
  shadowFill :: "bool option"
  tabs :: tabs

datatype fontSizeArg = SizeNumber real | SizeString string

record styleArg =
  arg_font :: "string option"
  arg_fontStyle :: "string option"
  arg_fontVariant :: "string option"
  arg_fontWeight :: "string option"
  arg_fontSize :: "fontSizeArg option"
  arg_backgroundColor :: "string option"
  arg_fill :: "string option"
  arg_align :: "string option"
  arg_boundsAlignH :: "string option"
  arg_boundsAlignV :: "string option"
  arg_stroke :: "string option"
  arg_strokeThickness :: "real option"
  arg_wordWrap :: "bool option"
  arg_wordWrapWidth :: "real option"
  arg_shadowOffsetX :: "real option"
  arg_shadowOffsetY :: "real option"
  arg_shadowColor :: "string option"
  arg_shadowBlur :: "real option"
  arg_shadowStroke :: "bool option"
  arg_shadowFill :: "bool option"
  arg_tabs :: "tabs option"

definition emptyStyleArg :: styleArg where
  \<comment> \<open>\<^verbatim>\<open>{}\<close>\<close>
  "emptyStyleArg =
     \<lparr> arg_font = None, arg_fontStyle = None, arg_fontVariant = None, arg_fontWeight = None,
       arg_fontSize = None, arg_backgroundColor = None, arg_fill = None, arg_align = None,
       arg_boundsAlignH = None, arg_boundsAlignV = None, arg_stroke = None,
       arg_strokeThickness = None, arg_wordWrap = None, arg_wordWrapWidth = None,
       arg_shadowOffsetX = None, arg_shadowOffsetY = None, arg_shadowColor = None,
       arg_shadowBlur = None, arg_shadowStroke = None, arg_shadowFill = None, arg_tabs = None \<rparr>"

record rectangle =
  rect_x :: real
  rect_y :: real
  rect_width :: real
  rect_height :: real

definition halfWidth :: "rectangle \<Rightarrow> real" where
  \<comment> \<open>Modelled from the spec: \<^verbatim>\<open>Phaser.Rectangle\<close> is not among the sources; the spec
      aligns the centre at \<^verbatim>\<open>bounds.center - surfaceWidth/2\<close>, half of the width
      from the left edge.\<close>
  "halfWidth b = rect_width b / 2"

definition halfHeight :: "rectangle \<Rightarrow> real" where
  \<comment> \<open>Modelled from the spec: as \<open>halfWidth\<close>, for the vertical axis
      (\<^verbatim>\<open>top/middle/bottom\<close> analogously).\<close>
  "halfHeight b = rect_height b / 2"

datatype paint = Paint string | PaintNumber real
  \<comment> \<open>\<^verbatim>\<open>context.shadowColor\<close> is assigned a colour string or the number 0\<close>

datatype call =
    Scale real real
  | ClearRect real real jsnum real
  | FillRect real real jsnum real
  | StrokeText string jsnum real
  | FillText string jsnum real

record context2d =
  ctx_font :: string
  ctx_fillStyle :: string
  ctx_strokeStyle :: string
  ctx_textBaseline :: string
  ctx_lineWidth :: real
  ctx_lineCap :: string
  ctx_lineJoin :: string
  ctx_shadowOffsetX :: real
  ctx_shadowOffsetY :: real
  ctx_shadowColor :: paint
  ctx_shadowBlur :: real
  ctx_calls :: "call list"

record canvasElement =
  cv_width :: jsnum
  cv_height :: real

record textureState =
  base_resolution :: real
  base_width :: jsnum
  base_height :: real
  crop_width :: jsnum
  crop_height :: real
  frame_width :: jsnum
  frame_height :: real
  tex_width :: jsnum
  tex_height :: real
  requiresReTint :: bool
  base_dirty :: nat

record fontProperties =
  ascent :: real
  descent :: real
  props_fontSize :: real

record host =
  measureText :: "string \<Rightarrow> string \<Rightarrow> real"
  determineFontProperties :: "string \<Rightarrow> fontProperties"
  snapToCeil :: "real \<Rightarrow> real \<Rightarrow> real"
  numberToString :: "real \<Rightarrow> string"
  toDouble :: "real \<Rightarrow> real"
  isCocoonJS :: bool

text \<open>
  \<open>measureText h f t\<close> is \<^verbatim>\<open>context.measureText(t).width\<close> while the context's font
  is \<open>f\<close>. \<open>determineFontProperties h f\<close> is the result of the method of that name,
  which probes the pixels of a host canvas and memoises per font string; the probe is not
  modelled. \<open>snapToCeil\<close> is \<^verbatim>\<open>Phaser.Math.snapToCeil\<close> and \<open>numberToString\<close> the
  conversion of a number to a string; neither is among the sources.
  \<open>toDouble\<close> is the rounding of the double arithmetic: the double nearest to a real.
  The canvas is a plain record: what the host does to an assigned width or height
  (integer conversion, clearing) is outside this model.
\<close>

record phaserText =
  style :: style
  padding :: "real \<times> real"
  textBounds :: "rectangle option"
  canvas :: canvasElement
  ctx :: context2d
  colors :: "string option list"
  strokeColors :: "string option list"
  fontStyles :: "string option list"
  fontWeights :: "string option list"
  autoRound :: bool
  priv_res :: real
  priv_text :: string
  priv_fontComponents :: components
  priv_lineSpacing :: real
  priv_charCount :: nat
  priv_width :: jsnum
  priv_height :: real
  dirty :: bool
  pivot :: "jsnum \<times> real"
  renderable :: bool
  texture :: textureState
  parent :: bool
  transformUpdates :: nat

text \<open>
  The four arrays of run starts are sparse arrays: a hole is \<open>None\<close>, and a write past
  the end extends the array. \<open>parent\<close> tells whether \<^verbatim>\<open>this.parent\<close> is set, and
  \<open>transformUpdates\<close> counts the calls of the inherited \<^verbatim>\<open>updateTransform\<close>.
\<close>

definition sparseGet :: "string option list \<Rightarrow> nat \<Rightarrow> string option" where
  "sparseGet a i = (if i < length a then a ! i else None)"

definition sparseSet :: "string option list \<Rightarrow> nat \<Rightarrow> string \<Rightarrow> string option list" where
  "sparseSet a i v =
     (if i < length a then a[i := Some v] else a @ replicate (i - length a) None @ [Some v])"

definition updateTransform :: "phaserText \<Rightarrow> phaserText" where
  "updateTransform s = s\<lparr>transformUpdates := transformUpdates s + 1\<rparr>"

subsection \<open>setShadow, setStyle\<close>

definition setShadow ::
  "real option \<Rightarrow> real option \<Rightarrow> string option \<Rightarrow> real option \<Rightarrow> bool option \<Rightarrow> bool option \<Rightarrow>
   phaserText \<Rightarrow> phaserText" where
  \<comment> \<open>an argument left out (\<^verbatim>\<open>undefined\<close>) is \<open>None\<close>\<close>
  "setShadow x y color blur shadowStroke' shadowFill' s =
     (let x = (case x of None \<Rightarrow> 0 | Some v \<Rightarrow> v);
          y = (case y of None \<Rightarrow> 0 | Some v \<Rightarrow> v);
          color = (case color of None \<Rightarrow> ''rgba(0, 0, 0, 1)'' | Some v \<Rightarrow> v);
          blur = (case blur of None \<Rightarrow> 0 | Some v \<Rightarrow> v);
          shadowStroke' = (case shadowStroke' of None \<Rightarrow> True | Some v \<Rightarrow> v);
          shadowFill' = (case shadowFill' of None \<Rightarrow> True | Some v \<Rightarrow> v)
      in s\<lparr> style := (style s)\<lparr> shadowOffsetX := x, shadowOffsetY := y, shadowColor := color,
                 shadowBlur := blur, shadowStroke := Some shadowStroke',
                 shadowFill := Some shadowFill' \<rparr>,
             dirty := True \<rparr>)"

definition setStyle :: "host \<Rightarrow> styleArg option \<Rightarrow> phaserText \<Rightarrow> phaserText" where
  "setStyle h arg s =
     (let a = (case arg of None \<Rightarrow> emptyStyleArg | Some a \<Rightarrow> a);
          st = \<lparr> style_font = orString (arg_font a) ''bold 20pt Arial'',
                 style_fontStyle = arg_fontStyle a,
                 style_fontVariant = arg_fontVariant a,
                 style_fontWeight = arg_fontWeight a,
                 style_fontSize =
                   (case arg_fontSize a of
                      None \<Rightarrow> None
                    | Some (SizeString v) \<Rightarrow> Some v
                    | Some (SizeNumber n) \<Rightarrow> if n \<noteq> 0 then Some (numberToString h n @ ''px'') else None),
                 backgroundColor = (if truthy (arg_backgroundColor a) then arg_backgroundColor a else None),
                 fill = orString (arg_fill a) ''black'',
                 align = orString (arg_align a) ''left'',
                 boundsAlignH = orString (arg_boundsAlignH a) ''left'',
                 boundsAlignV = orString (arg_boundsAlignV a) ''top'',
                 stroke = orString (arg_stroke a) ''black'',
                 strokeThickness = orNumber (arg_strokeThickness a) 0,
                 wordWrap = (case arg_wordWrap a of None \<Rightarrow> False | Some b \<Rightarrow> b),
                 wordWrapWidth = orNumber (arg_wordWrapWidth a) 100,
                 shadowOffsetX = orNumber (arg_shadowOffsetX a) 0,
                 shadowOffsetY = orNumber (arg_shadowOffsetY a) 0,
                 shadowColor = orString (arg_shadowColor a) ''rgba(0,0,0,0)'',
                 shadowBlur = orNumber (arg_shadowBlur a) 0,
                 shadowStroke = arg_shadowStroke a,
                 shadowFill = arg_shadowFill a,
                 tabs = (case arg_tabs a of
                           None \<Rightarrow> TabSize 0
                         | Some (TabSize t) \<Rightarrow> TabSize t
                         | Some (TabStops i stops) \<Rightarrow> TabStops i stops) \<rparr>;
          components = fontToComponents (style_font st);
          components = (if truthy (style_fontStyle st)
                        then components\<lparr>fontStyle := style_fontStyle st\<rparr> else components);
          components = (if truthy (style_fontVariant st)
                        then components\<lparr>fontVariant := style_fontVariant st\<rparr> else components);
          components = (if truthy (style_fontWeight st)
                        then components\<lparr>fontWeight := style_fontWeight st\<rparr> else components);
          components = (if truthy (style_fontSize st)
                        then components\<lparr>fontSize := style_fontSize st\<rparr> else components);
          st = st\<lparr>style_font := componentsToFont components\<rparr>
      in s\<lparr> priv_fontComponents := components, style := st, dirty := True \<rparr>)"

text \<open>
  In \<open>setStyle\<close> the stored \<^verbatim>\<open>style.fontSize\<close> of a numeric size is the string with
  \<^verbatim>\<open>px\<close>; a size of 0 is falsy and leaves the components alone (the stored field is then
  read by nothing and is \<open>None\<close> here). \<^verbatim>\<open>style.tabs || 0\<close> keeps a non-zero number and
  every array.
\<close>

subsection \<open>updateText and what it calls\<close>

definition drawText :: "bool \<Rightarrow> string \<Rightarrow> jsnum \<Rightarrow> real \<Rightarrow> context2d \<Rightarrow> context2d" where
  \<comment> \<open>\<^verbatim>\<open>if (fill) context.fillText(t, x, y) else context.strokeText(t, x, y)\<close>, logged\<close>
  "drawText fill' t x y c =
     c\<lparr>ctx_calls := ctx_calls c @ [if fill' then FillText t x y else StrokeText t x y]\<rparr>"

fun renderTabStops ::
  "real list \<Rightarrow> string list \<Rightarrow> nat \<Rightarrow> jsnum \<Rightarrow> jsnum \<Rightarrow> real \<Rightarrow> bool \<Rightarrow> context2d \<Rightarrow> context2d" where
  \<comment> \<open>the loop of \<open>renderTabLine\<close> for an array of tabs; \<open>c\<close> is the index of the next
      segment, the next argument is \<^verbatim>\<open>tab\<close>\<close>
  "renderTabStops stops [] c tab x y fill' cx = cx"
| "renderTabStops stops (t # ts) c tab x y fill' cx =
     (let tab = (if c > 0 then jadd tab (arrayGet stops (c - 1)) else tab);
          snap = jadd x tab
      in renderTabStops stops ts (c + 1) tab x y fill' (drawText fill' t snap y cx))"

definition jsnap :: "host \<Rightarrow> jsnum \<Rightarrow> real \<Rightarrow> jsnum" where
  "jsnap h x gap = (case x of Val a \<Rightarrow> Val (snapToCeil h a gap) | NaN \<Rightarrow> NaN)"

fun renderTabSize ::
  "host \<Rightarrow> real \<Rightarrow> string list \<Rightarrow> jsnum \<Rightarrow> real \<Rightarrow> bool \<Rightarrow> context2d \<Rightarrow> context2d" where
  \<comment> \<open>the loop of \<open>renderTabLine\<close> for a tab size\<close>
  "renderTabSize h gap [] x y fill' cx = cx"
| "renderTabSize h gap (t # ts) x y fill' cx =
     (let section = mathCeil (measureText h (ctx_font cx) t);
          snap = jsnap h x gap;
          cx = drawText fill' t snap y cx;
          x = jadd snap (Val section)
      in renderTabSize h gap ts x y fill' cx)"

definition renderTabLine :: "host \<Rightarrow> string \<Rightarrow> jsnum \<Rightarrow> real \<Rightarrow> bool \<Rightarrow> phaserText \<Rightarrow> phaserText" where
  "renderTabLine h line x y fill' s =
     (let segments = split (CHR 0x09) line
      in case tabs (style s) of
           TabStops _ stops \<Rightarrow> s\<lparr>ctx := renderTabStops stops segments 0 (Val 0) x y fill' (ctx s)\<rparr>
         | TabSize gap \<Rightarrow> s\<lparr>ctx := renderTabSize h gap segments x y fill' (ctx s)\<rparr>)"

definition updateShadow :: "bool \<Rightarrow> phaserText \<Rightarrow> phaserText" where
  "updateShadow state s =
     (if state then
        s\<lparr>ctx := (ctx s)\<lparr> ctx_shadowOffsetX := shadowOffsetX (style s),
                          ctx_shadowOffsetY := shadowOffsetY (style s),
                          ctx_shadowColor := Paint (shadowColor (style s)),
                          ctx_shadowBlur := shadowBlur (style s) \<rparr>\<rparr>
      else
        s\<lparr>ctx := (ctx s)\<lparr> ctx_shadowOffsetX := 0, ctx_shadowOffsetY := 0,
                          ctx_shadowColor := PaintNumber 0, ctx_shadowBlur := 0 \<rparr>\<rparr>)"

definition updateLetter :: "host \<Rightarrow> char \<Rightarrow> jsnum \<Rightarrow> real \<Rightarrow> phaserText \<Rightarrow> phaserText" where
  \<comment> \<open>the body of the loop of \<open>updateLine\<close> for one letter, up to the two draw calls\<close>
  "updateLetter h letter x y s =
     (let s = (if fontWeights s \<noteq> [] \<or> fontStyles s \<noteq> [] then
                 (let components = fontToComponents (ctx_font (ctx s));
                      components =
                        (if truthy (sparseGet (fontStyles s) (priv_charCount s))
                         then components\<lparr>fontStyle := sparseGet (fontStyles s) (priv_charCount s)\<rparr>
                         else components);
                      components =
                        (if truthy (sparseGet (fontWeights s) (priv_charCount s))
                         then components\<lparr>fontWeight := sparseGet (fontWeights s) (priv_charCount s)\<rparr>
                         else components)
                  in s\<lparr>ctx := (ctx s)\<lparr>ctx_font := componentsToFont components\<rparr>\<rparr>)
               else s);
          s = (if stroke (style s) \<noteq> [] \<and> strokeThickness (style s) \<noteq> 0 then
                 (let s = (case sparseGet (strokeColors s) (priv_charCount s) of
                             Some v \<Rightarrow> if v \<noteq> [] then s\<lparr>ctx := (ctx s)\<lparr>ctx_strokeStyle := v\<rparr>\<rparr> else s
                           | None \<Rightarrow> s);
                      s = updateShadow (shadowStroke (style s) = Some True) s
                  in s\<lparr>ctx := drawText False [letter] x y (ctx s)\<rparr>)
               else s)
      in if fill (style s) \<noteq> [] then
           (let s = (case sparseGet (colors s) (priv_charCount s) of
                       Some v \<Rightarrow> if v \<noteq> [] then s\<lparr>ctx := (ctx s)\<lparr>ctx_fillStyle := v\<rparr>\<rparr> else s
                     | None \<Rightarrow> s);
                s = updateShadow (shadowFill (style s) = Some True) s
            in s\<lparr>ctx := drawText True [letter] x y (ctx s)\<rparr>)
         else s)"

fun updateLine :: "host \<Rightarrow> string \<Rightarrow> jsnum \<Rightarrow> real \<Rightarrow> phaserText \<Rightarrow> phaserText" where
  \<comment> \<open>after the draw calls of a letter, \<open>x\<close> advances by its width under the
      context's font and \<^verbatim>\<open>_charCount\<close> by one\<close>
  "updateLine h [] x y s = s"
| "updateLine h (letter # rest) x y s =
     (let s = updateLetter h letter x y s;
          x = jadd x (Val (measureText h (ctx_font (ctx s)) [letter]))
      in updateLine h rest x y (s\<lparr>priv_charCount := priv_charCount s + 1\<rparr>))"

definition updateTexture :: "phaserText \<Rightarrow> phaserText" where
  "updateTexture s =
     (let w = cv_width (canvas s);
          h = cv_height (canvas s);
          s = s\<lparr> texture := (texture s)\<lparr> base_width := w, base_height := h,
                     crop_width := w, crop_height := h, frame_width := w, frame_height := h,
                     tex_width := w, tex_height := h \<rparr>,
                 priv_width := w, priv_height := h \<rparr>;
          s = (case textBounds s of
                 None \<Rightarrow> s
               | Some b \<Rightarrow>
                   (let x = Val (rect_x b);
                        y = rect_y b;
                        x = (if boundsAlignH (style s) = ''right''
                             then jadd x (jsub (Val (rect_width b)) (cv_width (canvas s)))
                             else if boundsAlignH (style s) = ''center''
                             then jadd x (jsub (Val (halfWidth b)) (jdiv (cv_width (canvas s)) (Val 2)))
                             else x);
                        y = (if boundsAlignV (style s) = ''bottom''
                             then y + (rect_height b - cv_height (canvas s))
                             else if boundsAlignV (style s) = ''middle''
                             then y + (halfHeight b - cv_height (canvas s) / 2)
                             else y)
                    in s\<lparr>pivot := (jneg x, - y)\<rparr>));
          s = s\<lparr>renderable := (w \<noteq> Val 0 \<and> h \<noteq> 0)\<rparr>
      in s\<lparr>texture := (texture s)\<lparr>requiresReTint := True, base_dirty := base_dirty (texture s) + 1\<rparr>\<rparr>)"

fun tabStopsWidth :: "(string \<Rightarrow> real) \<Rightarrow> real list \<Rightarrow> string list \<Rightarrow> nat \<Rightarrow> jsnum \<Rightarrow> jsnum \<Rightarrow> jsnum" where
  \<comment> \<open>the loop of \<open>updateText\<close> over the segments of a line, for an array of tabs:
      \<open>c\<close> is the index of the next segment, then \<^verbatim>\<open>tab\<close> and \<^verbatim>\<open>lineWidth\<close>\<close>
  "tabStopsWidth m stops [] c tab lineWidth = lineWidth"
| "tabStopsWidth m stops (t # ts) c tab lineWidth =
     (let section = mathCeil (m t);
          tab = (if c > 0 then jadd tab (arrayGet stops (c - 1)) else tab);
          lineWidth = jadd tab (Val section)
      in tabStopsWidth m stops ts (c + 1) tab lineWidth)"

fun tabSizeWidth :: "host \<Rightarrow> (string \<Rightarrow> real) \<Rightarrow> real \<Rightarrow> string list \<Rightarrow> real \<Rightarrow> real" where
  \<comment> \<open>the same loop for a tab size\<close>
  "tabSizeWidth h m gap [] lineWidth = lineWidth"
| "tabSizeWidth h m gap (t # ts) lineWidth =
     (let lineWidth = lineWidth + mathCeil (m t);
          diff = snapToCeil h lineWidth gap - lineWidth;
          lineWidth = lineWidth + diff
      in tabSizeWidth h m gap ts lineWidth)"

definition lineWidthOf :: "host \<Rightarrow> phaserText \<Rightarrow> string \<Rightarrow> jsnum" where
  \<comment> \<open>\<^verbatim>\<open>lineWidth\<close> at the end of the body of the first loop of \<open>updateText\<close>\<close>
  "lineWidthOf h s line =
     (let m = measureText h (ctx_font (ctx s))
      in if tabs (style s) = TabSize 0 then
           Val (m line + strokeThickness (style s) + fst (padding s))
         else
           (let segments = split (CHR 0x09) line;
                lineWidth = fst (padding s) + strokeThickness (style s)
            in case tabs (style s) of
                 TabStops _ stops \<Rightarrow> tabStopsWidth m stops segments 0 (Val 0) (Val lineWidth)
               | TabSize gap \<Rightarrow> Val (tabSizeWidth h m gap segments lineWidth)))"

definition lineWidthsOf :: "host \<Rightarrow> phaserText \<Rightarrow> string list \<Rightarrow> jsnum list" where
  \<comment> \<open>\<^verbatim>\<open>lineWidths[i] = Math.ceil(lineWidth)\<close>\<close>
  "lineWidthsOf h s lines = map (\<lambda>line. jceil (lineWidthOf h s line)) lines"

definition maxLineWidthOf :: "jsnum list \<Rightarrow> jsnum" where
  \<comment> \<open>\<^verbatim>\<open>maxLineWidth = Math.max(maxLineWidth, lineWidths[i])\<close>, from 0\<close>
  "maxLineWidthOf lineWidths = foldl jmax (Val 0) lineWidths"

definition lineHeightOf :: "host \<Rightarrow> phaserText \<Rightarrow> real" where
  "lineHeightOf h s =
     props_fontSize (determineFontProperties h (style_font (style s)))
       + strokeThickness (style s) + snd (padding s)"

definition clampLineSpacing :: "real \<Rightarrow> real \<Rightarrow> real" where
  "clampLineSpacing lineHeight lineSpacing =
     (if lineSpacing < 0 \<and> \<bar>lineSpacing\<bar> > lineHeight then - lineHeight else lineSpacing)"

definition textHeight :: "real \<Rightarrow> real \<Rightarrow> nat \<Rightarrow> real" where
  \<comment> \<open>\<^verbatim>\<open>height\<close>, from the line height, the clamped line spacing and \<^verbatim>\<open>lines.length\<close>\<close>
  "textHeight lineHeight lineSpacing n =
     (let height = lineHeight * real n
      in if lineSpacing \<noteq> 0 then height + lineSpacing * (real n - 1) else height)"

definition drawLine ::
  "host \<Rightarrow> real \<Rightarrow> real \<Rightarrow> real \<Rightarrow> jsnum \<Rightarrow> nat \<Rightarrow> string \<Rightarrow> jsnum \<Rightarrow> phaserText \<Rightarrow> phaserText" where
  \<comment> \<open>the body of the second loop of \<open>updateText\<close> for line \<open>i\<close>, which is \<open>line\<close>,
      of width \<^verbatim>\<open>lineWidths[i]\<close>\<close>
  "drawLine h lineHeight lineSpacing asc maxLineWidth i line lineWidth s =
     (let linePositionX = Val (strokeThickness (style s) / 2);
          linePositionY = (strokeThickness (style s) / 2 + real i * lineHeight) + asc;
          linePositionY = (if i > 0 then linePositionY + lineSpacing * real i else linePositionY);
          linePositionX =
            (if align (style s) = ''right'' then jadd linePositionX (jsub maxLineWidth lineWidth)
             else if align (style s) = ''center''
             then jadd linePositionX (jdiv (jsub maxLineWidth lineWidth) (Val 2))
             else linePositionX);
          linePositionX = (if autoRound s then jround linePositionX else linePositionX);
          linePositionY = (if autoRound s then mathRound linePositionY else linePositionY)
      in if colors s \<noteq> [] \<or> strokeColors s \<noteq> [] \<or> fontWeights s \<noteq> [] \<or> fontStyles s \<noteq> []
         then updateLine h line linePositionX linePositionY s
         else
           (let s = (if stroke (style s) \<noteq> [] \<and> strokeThickness (style s) \<noteq> 0 then
                       (let s = updateShadow (shadowStroke (style s) = Some True) s
                        in if tabs (style s) = TabSize 0
                           then s\<lparr>ctx := drawText False line linePositionX linePositionY (ctx s)\<rparr>
                           else renderTabLine h line linePositionX linePositionY False s)
                     else s)
            in if fill (style s) \<noteq> [] then
                 (let s = updateShadow (shadowFill (style s) = Some True) s
                  in if tabs (style s) = TabSize 0
                     then s\<lparr>ctx := drawText True line linePositionX linePositionY (ctx s)\<rparr>
                     else renderTabLine h line linePositionX linePositionY True s)
               else s))"

fun drawLines ::
  "host \<Rightarrow> real \<Rightarrow> real \<Rightarrow> real \<Rightarrow> jsnum \<Rightarrow> nat \<Rightarrow> (string \<times> jsnum) list \<Rightarrow> phaserText \<Rightarrow> phaserText" where
  \<comment> \<open>the second loop of \<open>updateText\<close>: \<open>i\<close> is the index of the next line, the list
      pairs \<^verbatim>\<open>lines[i]\<close> with \<^verbatim>\<open>lineWidths[i]\<close>\<close>
  "drawLines h lineHeight lineSpacing asc maxLineWidth i [] s = s"
| "drawLines h lineHeight lineSpacing asc maxLineWidth i (l # rest) s =
     drawLines h lineHeight lineSpacing asc maxLineWidth (i + 1) rest
       (drawLine h lineHeight lineSpacing asc maxLineWidth i (fst l) (snd l) s)"

definition updateText :: "host \<Rightarrow> phaserText \<Rightarrow> phaserText" where
  "updateText h s =
     (let s = s\<lparr>texture := (texture s)\<lparr>base_resolution := priv_res s\<rparr>\<rparr>;
          s = s\<lparr>ctx := (ctx s)\<lparr>ctx_font := style_font (style s)\<rparr>\<rparr>;
          outputText = priv_text s;
          outputText =
            (if wordWrap (style s)
             then runWordWrap (toDouble h) (measureText h (ctx_font (ctx s)))
                    (wordWrapWidth (style s)) (priv_text s)
             else outputText);
          lines = splitNewlines [] outputText;
          lineWidths = lineWidthsOf h s lines;
          maxLineWidth = maxLineWidthOf lineWidths;
          fontProps = determineFontProperties h (style_font (style s));
          s = s\<lparr>canvas := (canvas s)\<lparr>cv_width := jmul maxLineWidth (Val (priv_res s))\<rparr>\<rparr>;
          lineHeight = lineHeightOf h s;
          lineSpacing = clampLineSpacing lineHeight (priv_lineSpacing s);
          height = textHeight lineHeight lineSpacing (length lines);
          s = s\<lparr>canvas := (canvas s)\<lparr>cv_height := height * priv_res s\<rparr>\<rparr>;
          s = s\<lparr>ctx := (ctx s)\<lparr>ctx_calls := ctx_calls (ctx s) @ [Scale (priv_res s) (priv_res s)]\<rparr>\<rparr>;
          s = (if isCocoonJS h
               then s\<lparr>ctx := (ctx s)\<lparr>ctx_calls := ctx_calls (ctx s) @
                      [ClearRect 0 0 (cv_width (canvas s)) (cv_height (canvas s))]\<rparr>\<rparr>
               else s);
          s = (case backgroundColor (style s) of
                 Some bg \<Rightarrow>
                   if bg \<noteq> [] then
                     s\<lparr>ctx := (ctx s)\<lparr> ctx_fillStyle := bg,
                            ctx_calls := ctx_calls (ctx s) @
                              [FillRect 0 0 (cv_width (canvas s)) (cv_height (canvas s))] \<rparr>\<rparr>
                   else s
               | None \<Rightarrow> s);
          s = s\<lparr>ctx := (ctx s)\<lparr> ctx_fillStyle := fill (style s),
                            ctx_font := style_font (style s),
                            ctx_strokeStyle := stroke (style s),
                            ctx_textBaseline := ''alphabetic'',
                            ctx_lineWidth := strokeThickness (style s),
                            ctx_lineCap := ''round'',
                            ctx_lineJoin := ''round'' \<rparr>\<rparr>;
          s = s\<lparr>priv_charCount := 0\<rparr>;
          s = drawLines h lineHeight lineSpacing (ascent fontProps) maxLineWidth 0 (zip lines lineWidths) s
      in updateTexture s)"

subsection \<open>Rendering and the getters that lay the text out\<close>

definition renderWebGL :: "host \<Rightarrow> phaserText \<Rightarrow> phaserText" where
  \<comment> \<open>\<^verbatim>\<open>_renderWebGL\<close>; the sprite's own rendering is the host's\<close>
  "renderWebGL h s = (if dirty s then (updateText h s)\<lparr>dirty := False\<rparr> else s)"

definition renderCanvas :: "host \<Rightarrow> phaserText \<Rightarrow> phaserText" where
  \<comment> \<open>\<^verbatim>\<open>_renderCanvas\<close>; the frame debugger's hooks and the sprite's own rendering are
      the host's\<close>
  "renderCanvas h s = (if dirty s then (updateText h s)\<lparr>dirty := False\<rparr> else s)"

definition getBounds :: "host \<Rightarrow> phaserText \<Rightarrow> phaserText" where
  "getBounds h s = (if dirty s then (updateText h s)\<lparr>dirty := False\<rparr> else s)"

definition get_width :: "host \<Rightarrow> phaserText \<Rightarrow> phaserText" where
  \<comment> \<open>the getter of \<^verbatim>\<open>width\<close>, as far as it changes the object\<close>
  "get_width h s = (if dirty s then (updateText h s)\<lparr>dirty := False\<rparr> else s)"

definition get_height :: "host \<Rightarrow> phaserText \<Rightarrow> phaserText" where
  \<comment> \<open>the getter of \<^verbatim>\<open>height\<close>, as far as it changes the object\<close>
  "get_height h s = (if dirty s then (updateText h s)\<lparr>dirty := False\<rparr> else s)"

subsection \<open>Style runs\<close>

definition clearColors :: "phaserText \<Rightarrow> phaserText" where
  "clearColors s = s\<lparr>colors := [], strokeColors := [], dirty := True\<rparr>"

definition clearFontValues :: "phaserText \<Rightarrow> phaserText" where
  "clearFontValues s = s\<lparr>fontStyles := [], fontWeights := [], dirty := True\<rparr>"

definition addColor :: "string \<Rightarrow> nat \<Rightarrow> phaserText \<Rightarrow> phaserText" where
  "addColor color position s = s\<lparr>colors := sparseSet (colors s) position color, dirty := True\<rparr>"

definition addStrokeColor :: "string \<Rightarrow> nat \<Rightarrow> phaserText \<Rightarrow> phaserText" where
  "addStrokeColor color position s =
     s\<lparr>strokeColors := sparseSet (strokeColors s) position color, dirty := True\<rparr>"

definition addFontStyle :: "string \<Rightarrow> nat \<Rightarrow> phaserText \<Rightarrow> phaserText" where
  "addFontStyle style' position s =
     s\<lparr>fontStyles := sparseSet (fontStyles s) position style', dirty := True\<rparr>"

definition addFontWeight :: "string \<Rightarrow> nat \<Rightarrow> phaserText \<Rightarrow> phaserText" where
  "addFontWeight weight position s =
     s\<lparr>fontWeights := sparseSet (fontWeights s) position weight, dirty := True\<rparr>"

subsection \<open>The text\<close>

datatype jsval = Undefined | Null | Str string | Number real | Boolean bool

datatype error = TypeError

definition toString :: "host \<Rightarrow> jsval \<Rightarrow> error + string" where
  \<comment> \<open>\<^verbatim>\<open>v.toString()\<close>: a property access on \<^verbatim>\<open>undefined\<close> or \<^verbatim>\<open>null\<close> throws\<close>
  "toString h v =
     (case v of
        Undefined \<Rightarrow> Inl TypeError
      | Null \<Rightarrow> Inl TypeError
      | Str t \<Rightarrow> Inr t
      | Number n \<Rightarrow> Inr (numberToString h n)
      | Boolean b \<Rightarrow> Inr (if b then ''true'' else ''false''))"

definition set_text :: "host \<Rightarrow> jsval \<Rightarrow> phaserText \<Rightarrow> error + phaserText" where
  \<comment> \<open>the setter of \<^verbatim>\<open>text\<close>\<close>
  "set_text h v s =
     (if v \<noteq> Str (priv_text s) then
        (case toString h v of
           Inl e \<Rightarrow> Inl e
         | Inr t \<Rightarrow>
             (let s = s\<lparr>priv_text := (if t \<noteq> [] then t else []), dirty := True\<rparr>
              in Inr (if parent s then updateTransform s else s)))
      else Inr s)"

definition setText :: "host \<Rightarrow> jsval \<Rightarrow> phaserText \<Rightarrow> error + phaserText" where
  "setText h v s =
     (case toString h v of
        Inl e \<Rightarrow> Inl e
      | Inr t \<Rightarrow>
          (case set_text h (Str (if t \<noteq> [] then t else [])) s of
             Inl e \<Rightarrow> Inl e
           | Inr s \<Rightarrow> Inr (s\<lparr>dirty := True\<rparr>)))"

datatype listItem = Row "string list" | Cell string

datatype listArg = NotAnArray | Items "listItem list"

fun parseItems :: "listItem list \<Rightarrow> string \<Rightarrow> string" where
  \<comment> \<open>the loop of \<open>parseList\<close>; \<^verbatim>\<open>i < list.length - 1\<close> holds when items are left\<close>
  "parseItems [] acc = acc"
| "parseItems (Row cells # rest) acc =
     parseItems rest (acc @ join [CHR 0x09] cells @ (if rest \<noteq> [] then [CHR 0x0A] else []))"
| "parseItems (Cell c # rest) acc =
     parseItems rest (acc @ c @ (if rest \<noteq> [] then [CHR 0x09] else []))"

definition parseList :: "host \<Rightarrow> listArg \<Rightarrow> phaserText \<Rightarrow> error + phaserText" where
  \<comment> \<open>the elements of the array are taken as the strings they convert to\<close>
  "parseList h lst s =
     (case lst of
        NotAnArray \<Rightarrow> Inr s
      | Items items \<Rightarrow>
          (case set_text h (Str (parseItems items [])) s of
             Inl e \<Rightarrow> Inl e
           | Inr s \<Rightarrow> Inr (s\<lparr>dirty := True\<rparr>)))"

subsection \<open>Text bounds\<close>

definition setTextBounds :: "(real \<times> real \<times> real \<times> real) option \<Rightarrow> phaserText \<Rightarrow> phaserText" where
  \<comment> \<open>\<open>None\<close> is the call without arguments; \<^verbatim>\<open>new Phaser.Rectangle\<close> and \<^verbatim>\<open>setTo\<close>
      both leave the rectangle with the four numbers given\<close>
  "setTextBounds b s =
     (let s = (case b of
                 None \<Rightarrow> s\<lparr>textBounds := None\<rparr>
               | Some (x, y, width, height) \<Rightarrow>
                   (let s = s\<lparr>textBounds :=
                              Some \<lparr>rect_x = x, rect_y = y, rect_width = width, rect_height = height\<rparr>\<rparr>
                    in if wordWrapWidth (style s) > width
                       then s\<lparr>style := (style s)\<lparr>wordWrapWidth := width\<rparr>\<rparr>
                       else s))
      in updateTexture s)"

subsection \<open>The font setters\<close>

definition updateFont :: "components \<Rightarrow> phaserText \<Rightarrow> phaserText" where
  "updateFont components s =
     (let fnt = componentsToFont components
      in if style_font (style s) \<noteq> fnt then
           (let s = s\<lparr>style := (style s)\<lparr>style_font := fnt\<rparr>, dirty := True\<rparr>
            in if parent s then updateTransform s else s)
         else s)"

definition set_cssFont :: "string option \<Rightarrow> phaserText \<Rightarrow> phaserText" where
  "set_cssFont v s =
     (let v = orString v ''bold 20pt Arial'';
          s = s\<lparr>priv_fontComponents := fontToComponents v\<rparr>
      in updateFont (priv_fontComponents s) s)"

definition trim :: "string \<Rightarrow> string" where
  "trim v = rev (dropWhile isSpace (rev (dropWhile isSpace v)))"

definition genericFamilies :: "string list" where
  "genericFamilies = [''inherit'', ''serif'', ''sans-serif'', ''cursive'', ''fantasy'', ''monospace'']"

definition set_font :: "string option \<Rightarrow> phaserText \<Rightarrow> phaserText" where
  \<comment> \<open>the setter of \<^verbatim>\<open>font\<close>, the family: quoted unless it is a generic family or has
      a quote or a comma\<close>
  "set_font v s =
     (let v = orString v ''Arial'';
          v = trim v;
          v = (if v \<notin> set genericFamilies \<and> (\<forall>c \<in> set v. c \<notin> set [CHR 0x27, CHR 0x22, CHR '',''])
               then [CHR 0x27] @ v @ [CHR 0x27] else v);
          s = s\<lparr>priv_fontComponents := (priv_fontComponents s)\<lparr>fontFamily := Some v\<rparr>\<rparr>
      in updateFont (priv_fontComponents s) s)"

definition set_fontSize :: "host \<Rightarrow> fontSizeArg option \<Rightarrow> phaserText \<Rightarrow> phaserText" where
  "set_fontSize h v s =
     (let v = (case v of
                 None \<Rightarrow> ''0''
               | Some (SizeString t) \<Rightarrow> if t \<noteq> [] then t else ''0''
               | Some (SizeNumber n) \<Rightarrow> if n \<noteq> 0 then numberToString h n @ ''px'' else ''0'');
          s = s\<lparr>priv_fontComponents := (priv_fontComponents s)\<lparr>fontSize := Some v\<rparr>\<rparr>
      in updateFont (priv_fontComponents s) s)"

definition set_fontWeight :: "string option \<Rightarrow> phaserText \<Rightarrow> phaserText" where
  "set_fontWeight v s =
     (let v = orString v ''normal'';
          s = s\<lparr>priv_fontComponents := (priv_fontComponents s)\<lparr>fontWeight := Some v\<rparr>\<rparr>
      in updateFont (priv_fontComponents s) s)"

definition set_fontStyle :: "string option \<Rightarrow> phaserText \<Rightarrow> phaserText" where
  "set_fontStyle v s =
     (let v = orString v ''normal'';
          s = s\<lparr>priv_fontComponents := (priv_fontComponents s)\<lparr>fontStyle := Some v\<rparr>\<rparr>
      in updateFont (priv_fontComponents s) s)"

definition set_fontVariant :: "string option \<Rightarrow> phaserText \<Rightarrow> phaserText" where
  "set_fontVariant v s =
     (let v = orString v ''normal'';
          s = s\<lparr>priv_fontComponents := (priv_fontComponents s)\<lparr>fontVariant := Some v\<rparr>\<rparr>
      in updateFont (priv_fontComponents s) s)"

subsection \<open>The comparing setters\<close>

definition set_fill :: "string \<Rightarrow> phaserText \<Rightarrow> phaserText" where
  "set_fill v s =
     (if v \<noteq> fill (style s) then s\<lparr>style := (style s)\<lparr>fill := v\<rparr>, dirty := True\<rparr> else s)"

definition set_align :: "string \<Rightarrow> phaserText \<Rightarrow> phaserText" where
  "set_align v s =
     (if v \<noteq> align (style s) then s\<lparr>style := (style s)\<lparr>align := v\<rparr>, dirty := True\<rparr> else s)"

definition set_resolution :: "real \<Rightarrow> phaserText \<Rightarrow> phaserText" where
  "set_resolution v s = (if v \<noteq> priv_res s then s\<lparr>priv_res := v, dirty := True\<rparr> else s)"

definition set_tabs :: "tabs \<Rightarrow> phaserText \<Rightarrow> phaserText" where
  "set_tabs v s =
     (if \<not> tabsStrictEq v (tabs (style s))
      then s\<lparr>style := (style s)\<lparr>tabs := v\<rparr>, dirty := True\<rparr> else s)"

definition set_boundsAlignH :: "string \<Rightarrow> phaserText \<Rightarrow> phaserText" where
  "set_boundsAlignH v s =
     (if v \<noteq> boundsAlignH (style s)
      then s\<lparr>style := (style s)\<lparr>boundsAlignH := v\<rparr>, dirty := True\<rparr> else s)"

definition set_boundsAlignV :: "string \<Rightarrow> phaserText \<Rightarrow> phaserText" where
  "set_boundsAlignV v s =
     (if v \<noteq> boundsAlignV (style s)
      then s\<lparr>style := (style s)\<lparr>boundsAlignV := v\<rparr>, dirty := True\<rparr> else s)"

definition set_stroke :: "string \<Rightarrow> phaserText \<Rightarrow> phaserText" where
  "set_stroke v s =
     (if v \<noteq> stroke (style s) then s\<lparr>style := (style s)\<lparr>stroke := v\<rparr>, dirty := True\<rparr> else s)"

definition set_strokeThickness :: "real \<Rightarrow> phaserText \<Rightarrow> phaserText" where
  "set_strokeThickness v s =
     (if v \<noteq> strokeThickness (style s)
      then s\<lparr>style := (style s)\<lparr>strokeThickness := v\<rparr>, dirty := True\<rparr> else s)"

definition set_wordWrap :: "bool \<Rightarrow> phaserText \<Rightarrow> phaserText" where
  "set_wordWrap v s =
     (if v \<noteq> wordWrap (style s)
      then s\<lparr>style := (style s)\<lparr>wordWrap := v\<rparr>, dirty := True\<rparr> else s)"

definition set_wordWrapWidth :: "real \<Rightarrow> phaserText \<Rightarrow> phaserText" where
  "set_wordWrapWidth v s =
     (if v \<noteq> wordWrapWidth (style s)
      then s\<lparr>style := (style s)\<lparr>wordWrapWidth := v\<rparr>, dirty := True\<rparr> else s)"

definition set_lineSpacing :: "real \<Rightarrow> phaserText \<Rightarrow> phaserText" where
  \<comment> \<open>\<^verbatim>\<open>parseFloat\<close> of a number is that number\<close>
  "set_lineSpacing v s =
     (if v \<noteq> priv_lineSpacing s then
        (let s = s\<lparr>priv_lineSpacing := v, dirty := True\<rparr>
         in if parent s then updateTransform s else s)
      else s)"

definition set_shadowOffsetX :: "real \<Rightarrow> phaserText \<Rightarrow> phaserText" where
  "set_shadowOffsetX v s =
     (if v \<noteq> shadowOffsetX (style s)
      then s\<lparr>style := (style s)\<lparr>shadowOffsetX := v\<rparr>, dirty := True\<rparr> else s)"

definition set_shadowOffsetY :: "real \<Rightarrow> phaserText \<Rightarrow> phaserText" where
  "set_shadowOffsetY v s =
     (if v \<noteq> shadowOffsetY (style s)
      then s\<lparr>style := (style s)\<lparr>shadowOffsetY := v\<rparr>, dirty := True\<rparr> else s)"

definition set_shadowColor :: "string \<Rightarrow> phaserText \<Rightarrow> phaserText" where
  "set_shadowColor v s =
     (if v \<noteq> shadowColor (style s)
      then s\<lparr>style := (style s)\<lparr>shadowColor := v\<rparr>, dirty := True\<rparr> else s)"

definition set_shadowBlur :: "real \<Rightarrow> phaserText \<Rightarrow> phaserText" where
  "set_shadowBlur v s =
     (if v \<noteq> shadowBlur (style s)
      then s\<lparr>style := (style s)\<lparr>shadowBlur := v\<rparr>, dirty := True\<rparr> else s)"

definition set_shadowStroke :: "bool \<Rightarrow> phaserText \<Rightarrow> phaserText" where
  \<comment> \<open>the stored value is \<^verbatim>\<open>undefined\<close> until it is set\<close>
  "set_shadowStroke v s =
     (if Some v \<noteq> shadowStroke (style s)
      then s\<lparr>style := (style s)\<lparr>shadowStroke := Some v\<rparr>, dirty := True\<rparr> else s)"

definition set_shadowFill :: "bool \<Rightarrow> phaserText \<Rightarrow> phaserText" where
  "set_shadowFill v s =
     (if Some v \<noteq> shadowFill (style s)
      then s\<lparr>style := (style s)\<lparr>shadowFill := Some v\<rparr>, dirty := True\<rparr> else s)"

subsection \<open>The public operations\<close>

datatype operation =
    SetShadow "real option" "real option" "string option" "real option" "bool option" "bool option"
  | SetStyle "styleArg option"
  | ClearColors
  | ClearFontValues
  | AddColor string nat
  | AddStrokeColor string nat
  | AddFontStyle string nat
  | AddFontWeight string nat
  | SetText jsval
  | ParseList listArg
  | SetTextBounds "(real \<times> real \<times> real \<times> real) option"
  | RenderWebGL
  | RenderCanvas
  | GetBounds
  | GetWidth
  | GetHeight
  | AssignText jsval
  | AssignCssFont "string option"
  | AssignFont "string option"
  | AssignFontSize "fontSizeArg option"
  | AssignFontWeight "string option"
  | AssignFontStyle "string option"
  | AssignFontVariant "string option"
  | AssignFill string
  | AssignAlign string
  | AssignResolution real
  | AssignTabs tabs
  | AssignBoundsAlignH string
  | AssignBoundsAlignV string
  | AssignStroke string
  | AssignStrokeThickness real
  | AssignWordWrap bool
  | AssignWordWrapWidth real
  | AssignLineSpacing real
  | AssignShadowOffsetX real
  | AssignShadowOffsetY real
  | AssignShadowColor string
  | AssignShadowBlur real
  | AssignShadowStroke bool
  | AssignShadowFill bool

fun perform :: "host \<Rightarrow> operation \<Rightarrow> phaserText \<Rightarrow> error + phaserText" where
  \<comment> \<open>one call of a public method, or one assignment to a property\<close>
  "perform h (SetShadow x y color blur ss sf) s = Inr (setShadow x y color blur ss sf s)"
| "perform h (SetStyle a) s = Inr (setStyle h a s)"
| "perform h ClearColors s = Inr (clearColors s)"
| "perform h ClearFontValues s = Inr (clearFontValues s)"
| "perform h (AddColor c p) s = Inr (addColor c p s)"
| "perform h (AddStrokeColor c p) s = Inr (addStrokeColor c p s)"
| "perform h (AddFontStyle c p) s = Inr (addFontStyle c p s)"
| "perform h (AddFontWeight c p) s = Inr (addFontWeight c p s)"
| "perform h (SetText v) s = setText h v s"
| "perform h (ParseList l) s = parseList h l s"
| "perform h (SetTextBounds b) s = Inr (setTextBounds b s)"
| "perform h RenderWebGL s = Inr (renderWebGL h s)"
| "perform h RenderCanvas s = Inr (renderCanvas h s)"
| "perform h GetBounds s = Inr (getBounds h s)"
| "perform h GetWidth s = Inr (get_width h s)"
| "perform h GetHeight s = Inr (get_height h s)"
| "perform h (AssignText v) s = set_text h v s"
| "perform h (AssignCssFont v) s = Inr (set_cssFont v s)"
| "perform h (AssignFont v) s = Inr (set_font v s)"
| "perform h (AssignFontSize v) s = Inr (set_fontSize h v s)"
| "perform h (AssignFontWeight v) s = Inr (set_fontWeight v s)"
| "perform h (AssignFontStyle v) s = Inr (set_fontStyle v s)"
| "perform h (AssignFontVariant v) s = Inr (set_fontVariant v s)"
| "perform h (AssignFill v) s = Inr (set_fill v s)"
| "perform h (AssignAlign v) s = Inr (set_align v s)"
| "perform h (AssignResolution v) s = Inr (set_resolution v s)"
| "perform h (AssignTabs v) s = Inr (set_tabs v s)"
| "perform h (AssignBoundsAlignH v) s = Inr (set_boundsAlignH v s)"
| "perform h (AssignBoundsAlignV v) s = Inr (set_boundsAlignV v s)"
| "perform h (AssignStroke v) s = Inr (set_stroke v s)"
| "perform h (AssignStrokeThickness v) s = Inr (set_strokeThickness v s)"
| "perform h (AssignWordWrap v) s = Inr (set_wordWrap v s)"
| "perform h (AssignWordWrapWidth v) s = Inr (set_wordWrapWidth v s)"
| "perform h (AssignLineSpacing v) s = Inr (set_lineSpacing v s)"
| "perform h (AssignShadowOffsetX v) s = Inr (set_shadowOffsetX v s)"
| "perform h (AssignShadowOffsetY v) s = Inr (set_shadowOffsetY v s)"
| "perform h (AssignShadowColor v) s = Inr (set_shadowColor v s)"
| "perform h (AssignShadowBlur v) s = Inr (set_shadowBlur v s)"
| "perform h (AssignShadowStroke v) s = Inr (set_shadowStroke v s)"
| "perform h (AssignShadowFill v) s = Inr (set_shadowFill v s)"

subsection \<open>An example host and an example object\<close>

text \<open>
  A host whose fonts are monospaced, ten pixels a character, with an ascent of 15 and a
  descent of 5, and an object as it stands after a render of the text "Photon Storm".
  Its arithmetic rounds to the nearest multiple of \<open>1/1024\<close>: like that of the doubles,
  it is exact on the whole numbers the examples compute with, and rounds elsewhere.
\<close>

definition fixedPoint :: "real \<Rightarrow> real" where
  "fixedPoint x = real_of_int (round (x * 1024)) / 1024"

definition exampleHost :: host where
  "exampleHost =
     \<lparr> measureText = (\<lambda>f t. 10 * real (length t)),
       determineFontProperties = (\<lambda>f. \<lparr>ascent = 15, descent = 5, props_fontSize = 20\<rparr>),
       snapToCeil = (\<lambda>v gap. if gap = 0 then v else gap * mathCeil (v / gap)),
       numberToString = (\<lambda>n. ''0''),
       toDouble = fixedPoint,
       isCocoonJS = False \<rparr>"

definition exampleStyle :: style where
  "exampleStyle =
     \<lparr> style_font = ''bold 20pt Arial'', style_fontStyle = None, style_fontVariant = None,
       style_fontWeight = None, style_fontSize = None, backgroundColor = None,
       fill = ''black'', align = ''left'', boundsAlignH = ''left'', boundsAlignV = ''top'',
       stroke = ''black'', strokeThickness = 0, wordWrap = False, wordWrapWidth = 100,
       shadowOffsetX = 0, shadowOffsetY = 0, shadowColor = ''rgba(0,0,0,0)'', shadowBlur = 0,
       shadowStroke = None, shadowFill = None, tabs = TabSize 0 \<rparr>"

definition exampleText :: phaserText where
  "exampleText =
     \<lparr> style = exampleStyle, padding = (0, 0), textBounds = None,
       canvas = \<lparr>cv_width = Val 120, cv_height = 20\<rparr>,
       ctx = \<lparr> ctx_font = ''bold 20pt Arial'', ctx_fillStyle = ''black'', ctx_strokeStyle = ''black'',
               ctx_textBaseline = ''alphabetic'', ctx_lineWidth = 0, ctx_lineCap = ''round'',
               ctx_lineJoin = ''round'', ctx_shadowOffsetX = 0, ctx_shadowOffsetY = 0,
               ctx_shadowColor = PaintNumber 0, ctx_shadowBlur = 0, ctx_calls = [] \<rparr>,
       colors = [], strokeColors = [], fontStyles = [], fontWeights = [], autoRound = False,
       priv_res = 1, priv_text = ''Photon Storm'',
       priv_fontComponents =
         \<lparr> font = ''bold 20pt Arial'', fontStyle = Some ''normal'', fontVariant = Some ''normal'',
           fontWeight = Some ''bold'', fontSize = Some ''20pt'', fontFamily = Some ''Arial'' \<rparr>,
       priv_lineSpacing = 0, priv_charCount = 12, priv_width = Val 120, priv_height = 20,
       dirty = False, pivot = (Val 0, 0), renderable = True,
       texture = \<lparr> base_resolution = 1, base_width = Val 120, base_height = 20,
                   crop_width = Val 120, crop_height = 20, frame_width = Val 120, frame_height = 20,
                   tex_width = Val 120, tex_height = 20, requiresReTint = True, base_dirty = 1 \<rparr>,
       parent = False, transformUpdates = 0 \<rparr>"

subsection \<open>Notions the statements use\<close>

definition onlyDraws :: "phaserText \<Rightarrow> phaserText \<Rightarrow> bool" where
  \<comment> \<open>the second object is the first but for the context and the character counter\<close>
  "onlyDraws s s' = (s' = s\<lparr>ctx := ctx s', priv_charCount := priv_charCount s'\<rparr>)"

definition onlyRenders :: "phaserText \<Rightarrow> phaserText \<Rightarrow> bool" where
  \<comment> \<open>the second object is the first but for what a layout pass writes: the canvas,
      the context, the character counter, the cached size, the pivot, the renderable flag
      and the texture\<close>
  "onlyRenders s s' =
     (s' = s\<lparr> canvas := canvas s', ctx := ctx s', priv_charCount := priv_charCount s',
              priv_width := priv_width s', priv_height := priv_height s', pivot := pivot s',
              renderable := renderable s', texture := texture s' \<rparr>)"

definition layoutLines :: "host \<Rightarrow> phaserText \<Rightarrow> string list" where
  \<comment> \<open>\<^verbatim>\<open>lines\<close> of \<open>updateText\<close>, from the object it is called on\<close>
  "layoutLines h s =
     splitNewlines []
       (if wordWrap (style s)
        then runWordWrap (toDouble h) (measureText h (style_font (style s)))
               (wordWrapWidth (style s)) (priv_text s)
        else priv_text s)"

definition tabOffset :: "real list \<Rightarrow> nat \<Rightarrow> jsnum" where
  \<comment> \<open>the cumulative tab offset of segment \<open>k\<close> (counted from 0): the sum of the first
      \<open>k\<close> entries of the array, \<^verbatim>\<open>NaN\<close> when the array has fewer\<close>
  "tabOffset stops k = foldl jadd (Val 0) (map (arrayGet stops) [0..<k])"

definition wordsOf :: "string \<Rightarrow> string list" where
  \<comment> \<open>the words of a text: the non-empty pieces between spaces and line feeds\<close>
  "wordsOf s =
     concat (map (\<lambda>line. filter (\<lambda>w. w \<noteq> []) (split (CHR '' '') line)) (split (CHR 0x0A) s))"

definition lineWords :: "string \<Rightarrow> string list" where
  "lineWords line = filter (\<lambda>w. w \<noteq> []) (split (CHR '' '') line)"

definition lineFits :: "(string \<Rightarrow> real) \<Rightarrow> real \<Rightarrow> string \<Rightarrow> bool" where
  \<comment> \<open>an emitted line ends with the space that follows its last word; without that
      space it measures at most the budget, or it is a single word\<close>
  "lineFits m w l =
     (l \<noteq> [] \<and> last l = CHR '' '' \<and> (m (butlast l) \<le> w \<or> CHR '' '' \<notin> set (butlast l)))"

definition wrapInv :: "(string \<Rightarrow> real) \<Rightarrow> real \<Rightarrow> nat \<Rightarrow> real \<Rightarrow> string \<Rightarrow> bool" where
  \<comment> \<open>the invariant of the loop of \<open>wrapWords\<close>: the finished lines fit, and the line
      being filled has used \<^verbatim>\<open>wordWrapWidth - spaceLeft\<close> at most\<close>
  "wrapInv m w j spaceLeft r =
     ((\<forall>l \<in> set (butlast (split (CHR 0x0A) r)). lineFits m w l)
      \<and> (if j = 0 then last (split (CHR 0x0A) r) = []
         else last (split (CHR 0x0A) r) \<noteq> []
              \<and> last (last (split (CHR 0x0A) r)) = CHR '' ''
              \<and> m (butlast (last (split (CHR 0x0A) r))) \<le> w - spaceLeft
              \<and> (0 \<le> spaceLeft \<or> CHR '' '' \<notin> set (butlast (last (split (CHR 0x0A) r))))))"

fun exactWords :: "(real \<Rightarrow> real) \<Rightarrow> (string \<Rightarrow> real) \<Rightarrow> real \<Rightarrow> string list \<Rightarrow> real \<Rightarrow> bool" where
  \<comment> \<open>the loop of \<open>wrapWords\<close> rounds nothing on these words: the sums and the
      differences it computes are doubles already\<close>
  "exactWords fl m budget [] spaceLeft = True"
| "exactWords fl m budget (word # words) spaceLeft =
     (let wordWidth = m word;
          wordWidthWithSpace = wordWidth + m '' ''
      in fl wordWidthWithSpace = wordWidthWithSpace
         \<and> (if wordWidthWithSpace > spaceLeft
            then fl (budget - wordWidth) = budget - wordWidth
                 \<and> exactWords fl m budget words (budget - wordWidth)
            else fl (spaceLeft - wordWidthWithSpace) = spaceLeft - wordWidthWithSpace
                 \<and> exactWords fl m budget words (spaceLeft - wordWidthWithSpace)))"

definition exactRun :: "(real \<Rightarrow> real) \<Rightarrow> (string \<Rightarrow> real) \<Rightarrow> real \<Rightarrow> string \<Rightarrow> bool" where
  \<comment> \<open>\<open>runWordWrap\<close> rounds nothing on this text\<close>
  "exactRun fl m budget txt =
     list_all (\<lambda>line. exactWords fl m budget (split (CHR '' '') line) budget)
       (split (CHR 0x0A) txt)"

definition onGrid :: "real \<Rightarrow> real \<Rightarrow> bool" where
  \<comment> \<open>\<open>x\<close> is \<open>n * u\<close> for a whole number \<open>n\<close> from 0 to \<open>2 ^ 52\<close>\<close>
  "onGrid u x = (let n = \<lfloor>x / u\<rfloor> in 0 \<le> n \<and> n \<le> 2 ^ 52 \<and> x = real_of_int n * u)"

definition exactOn :: "(real \<Rightarrow> real) \<Rightarrow> real \<Rightarrow> bool" where
  \<comment> \<open>the rounding leaves the multiples \<open>n * u\<close> alone, up to \<open>2 ^ 53\<close> either way;
      the rounding of the doubles does for every \<open>u\<close> that is a power of two in their range\<close>
  "exactOn fl u = (\<forall>n::int. \<bar>n\<bar> \<le> 2 ^ 53 \<longrightarrow> fl (real_of_int n * u) = real_of_int n * u)"

definition isSeparator :: "char \<Rightarrow> bool" where
  "isSeparator c = (c = CHR '' '' \<or> c = CHR 0x0A)"

definition sealed :: "string \<Rightarrow> bool" where
  \<comment> \<open>no word is open at the end of the string\<close>
  "sealed r = (r = [] \<or> isSeparator (last r))"

definition monospace :: "string \<Rightarrow> real" where
  \<comment> \<open>the measure of the example host: ten pixels a character\<close>
  "monospace t = 10 * real (length t)"

fun alwaysMarks :: "operation \<Rightarrow> bool" where
  \<comment> \<open>the operations that assign \<^verbatim>\<open>this.dirty = true\<close> on every path that returns\<close>
  "alwaysMarks (SetShadow x y color blur ss sf) = True"
| "alwaysMarks (SetStyle a) = True"
| "alwaysMarks ClearColors = True"
| "alwaysMarks ClearFontValues = True"
| "alwaysMarks (AddColor c p) = True"
| "alwaysMarks (AddStrokeColor c p) = True"
| "alwaysMarks (AddFontStyle c p) = True"
| "alwaysMarks (AddFontWeight c p) = True"
| "alwaysMarks (SetText v) = True"
| "alwaysMarks (ParseList l) = (l \<noteq> NotAnArray)"
| "alwaysMarks _ = False"

fun isSetTextBounds :: "operation \<Rightarrow> bool" where
  "isSetTextBounds (SetTextBounds b) = True"
| "isSetTextBounds _ = False"

fun laysOut :: "operation \<Rightarrow> bool" where
  \<comment> \<open>the operations that run \<open>updateText\<close> on a dirty object\<close>
  "laysOut RenderWebGL = True"
| "laysOut RenderCanvas = True"
| "laysOut GetBounds = True"
| "laysOut GetWidth = True"
| "laysOut GetHeight = True"
| "laysOut _ = False"

fun clamps :: "operation \<Rightarrow> phaserText \<Rightarrow> bool" where
  \<comment> \<open>a call of \<open>setTextBounds\<close> that lowers \<^verbatim>\<open>style.wordWrapWidth\<close> to the width of the
      bounds\<close>
  "clamps (SetTextBounds (Some (x, y, width, height))) s = (wordWrapWidth (style s) > width)"
| "clamps _ s = False"

fun isFontAssignment :: "operation \<Rightarrow> bool" where
  \<comment> \<open>the setters that write the font components and call \<open>updateFont\<close>\<close>
  "isFontAssignment (AssignCssFont v) = True"
| "isFontAssignment (AssignFont v) = True"
| "isFontAssignment (AssignFontSize v) = True"
| "isFontAssignment (AssignFontWeight v) = True"
| "isFontAssignment (AssignFontStyle v) = True"
| "isFontAssignment (AssignFontVariant v) = True"
| "isFontAssignment _ = False"

definition contentChanged :: "phaserText \<Rightarrow> phaserText \<Rightarrow> bool" where
  \<comment> \<open>the text, a field of the style (the font string among them), a map of style runs
      or the resolution differ\<close>
  "contentChanged s s' =
     (priv_text s' \<noteq> priv_text s \<or> style s' \<noteq> style s \<or> colors s' \<noteq> colors s
      \<or> strokeColors s' \<noteq> strokeColors s \<or> fontStyles s' \<noteq> fontStyles s
      \<or> fontWeights s' \<noteq> fontWeights s \<or> priv_res s' \<noteq> priv_res s)"

definition disciplined :: "host \<Rightarrow> operation \<Rightarrow> phaserText \<Rightarrow> phaserText \<Rightarrow> bool" where
  "disciplined h op s s' =
     ((alwaysMarks op \<longrightarrow> dirty s')
      \<and> (\<not> clamps op s \<and> contentChanged s s' \<longrightarrow> dirty s')
      \<and> (isSetTextBounds op \<and> \<not> clamps op s \<longrightarrow> dirty s' = dirty s \<and> \<not> contentChanged s s')
      \<and> (isFontAssignment op \<longrightarrow>
            style_font (style s') = componentsToFont (priv_fontComponents s')
            \<and> (style_font (style s') = style_font (style s) \<longrightarrow>
                 s' = s\<lparr>priv_fontComponents := priv_fontComponents s'\<rparr>))
      \<and> (dirty s \<and> \<not> dirty s' \<longrightarrow> laysOut op \<and> s' = (updateText h s)\<lparr>dirty := False\<rparr>))"

subsection \<open>Example objects\<close>

definition threeLines :: phaserText where
  \<comment> \<open>three lines of text, with a line height of 24\<close>
  "threeLines =
     exampleText\<lparr>priv_text := ''a'' @ [CHR 0x0A] @ ''b'' @ [CHR 0x0A] @ ''c'', padding := (0, 4)\<rparr>"

definition tabbedText :: phaserText where
  "tabbedText = exampleText\<lparr>style := exampleStyle\<lparr>tabs := TabStops 0 [30, 80]\<rparr>\<rparr>"

definition tabbedLine :: string where
  "tabbedLine = ''a'' @ [CHR 0x09] @ ''bb'' @ [CHR 0x09] @ ''ccc''"

definition renderedText :: phaserText where
  \<comment> \<open>a surface of 100 by 40, to be aligned to the centre and the bottom\<close>
  "renderedText =
     exampleText\<lparr> canvas := \<lparr>cv_width = Val 100, cv_height = 40\<rparr>,
       style := exampleStyle\<lparr>boundsAlignH := ''center'', boundsAlignV := ''bottom''\<rparr> \<rparr>"

definition shadowedText :: phaserText where
  "shadowedText = setShadow (Some 2) (Some 2) None None None None tabbedText"

definition documentedTabs :: phaserText where
  \<comment> \<open>the array of the documentation of \<^verbatim>\<open>tabs\<close>\<close>
  "documentedTabs = exampleText\<lparr>style := exampleStyle\<lparr>tabs := TabStops 0 [100, 200]\<rparr>\<rparr>"

definition widening :: "string \<Rightarrow> real" where
  \<comment> \<open>a measure that is not subadditive: a string of \<open>n\<close> characters measures \<open>n * n\<close>\<close>
  "widening t = real (length t) * real (length t)"

definition inkOnly :: "string \<Rightarrow> real" where
  \<comment> \<open>an additive measure with spaces of no width: two fifths of a pixel a character\<close>
  "inkOnly t = 2 / 5 * real (length (filter (\<lambda>c. c \<noteq> CHR '' '') t))"

definition toWhole :: "real \<Rightarrow> real" where
  \<comment> \<open>a coarse rounding: to the nearest whole number\<close>
  "toWhole x = real_of_int (round x)"

definition serifText :: phaserText where
  \<comment> \<open>the example object after the assignment of \<^verbatim>\<open>bold medium serif\<close> to \<^verbatim>\<open>cssFont\<close>
      and a render\<close>
  "serifText =
     exampleText\<lparr> style := exampleStyle\<lparr>style_font := ''bold serif''\<rparr>,
       priv_fontComponents :=
         \<lparr> font = ''bold medium serif'', fontStyle = Some ''normal'', fontVariant = Some ''normal'',
           fontWeight = Some ''bold'', fontSize = Some ''medium'', fontFamily = Some ''serif'' \<rparr> \<rparr>"

subsection \<open>Canonical shorthand fonts\<close>

text \<open>
  The shorthand strings on which the serializer and the parser agree: the fields the
  serializer writes, in its order, separated by one space. A field that is absent stands for
  the neutral value the serializer omits (\<^verbatim>\<open>normal\<close>, \<^verbatim>\<open>medium\<close>).
\<close>

definition isUpper :: "char \<Rightarrow> bool" where
  "isUpper c = (c \<in> set ''ABCDEFGHIJKLMNOPQRSTUVWXYZ'')"

definition styleTokens :: "string list" where
  "styleTokens = [''italic'', ''oblique'']"

definition variantTokens :: "string list" where
  "variantTokens = [''small-caps'']"

definition weightTokens :: "string list" where
  "weightTokens = [''bold'', ''bolder'', ''lighter'', ''100'', ''200'', ''300'', ''400'',
     ''500'', ''600'', ''700'', ''800'', ''900'']"

definition sizeTokens :: "string list" where
  "sizeTokens = [''xx-small'', ''x-small'', ''small'', ''large'', ''x-large'',
     ''xx-large'', ''larger'', ''smaller'', ''0'']"

definition sizeNumber :: "string \<Rightarrow> bool" where
  \<comment> \<open>digits followed by a unit of two to five lower-case letters, as in \<^verbatim>\<open>20pt\<close>\<close>
  "sizeNumber t =
     (takeWhile isDigit t \<noteq> [] \<and> list_all isLower (dropWhile isDigit t)
      \<and> 2 \<le> length (dropWhile isDigit t) \<and> length (dropWhile isDigit t) \<le> 5)"

definition sizeTok :: "string \<Rightarrow> bool" where
  "sizeTok t = (t \<in> set sizeTokens \<or> sizeNumber t)"

definition familyOk :: "string option \<Rightarrow> string \<Rightarrow> bool" where
  \<comment> \<open>a family on one line; it starts with an upper-case letter when no size precedes it,
      and does not start with white space when one does\<close>
  "familyOk si fam =
     (fam \<noteq> [] \<and> list_all isDot fam
      \<and> (case si of None \<Rightarrow> isUpper (hd fam) | Some _ \<Rightarrow> \<not> isSpace (hd fam)))"

definition among :: "string option \<Rightarrow> (string \<Rightarrow> bool) \<Rightarrow> bool" where
  \<comment> \<open>a field is absent or satisfies a predicate\<close>
  "among v P = (case v of None \<Rightarrow> True | Some t \<Rightarrow> P t)"

definition tok :: "string option \<Rightarrow> string list" where
  "tok v = (case v of None \<Rightarrow> [] | Some t \<Rightarrow> [t])"

definition shorthand ::
  "string option \<Rightarrow> string option \<Rightarrow> string option \<Rightarrow> string option \<Rightarrow> string \<Rightarrow> string" where
  "shorthand st va we si fam = join '' '' (tok st @ tok va @ tok we @ tok si @ [fam])"

definition canonicalFont ::
  "string option \<Rightarrow> string option \<Rightarrow> string option \<Rightarrow> string option \<Rightarrow> string \<Rightarrow> bool" where
  "canonicalFont st va we si fam =
     (among st (\<lambda>t. t \<in> set styleTokens) \<and> among va (\<lambda>t. t \<in> set variantTokens)
      \<and> among we (\<lambda>t. t \<in> set weightTokens) \<and> among si sizeTok \<and> familyOk si fam)"

subsection \<open>Notions about the matcher\<close>

text \<open>
  What the proofs about the regular expression speak of: a continuation guarded by a word
  boundary, a group that takes a token or rejects the input at a position, and the word of
  a list of alternatives that a token selects.
\<close>

definition edge :: "(pos \<Rightarrow> 'a option) \<Rightarrow> pos \<Rightarrow> 'a option" where
  "edge g y = (if wordBoundary y then g y else None)"

definition fresh :: "string \<Rightarrow> bool" where
  \<comment> \<open>the input read so far does not end in a word character\<close>
  "fresh q = (q = [] \<or> \<not> isWordChar (hd q))"

definition starts :: "string \<Rightarrow> bool" where
  \<comment> \<open>the input left starts with a word character\<close>
  "starts r = (r \<noteq> [] \<and> isWordChar (hd r))"

definition takes :: "groups matcher \<Rightarrow> string \<Rightarrow> string \<Rightarrow> string \<Rightarrow> bool" where
  "takes M q t rest =
     (\<forall>g. g (rev t @ q, rest) \<noteq> None \<longrightarrow> M (edge g) (q, t @ rest) = g (rev t @ q, rest))"

definition rejects :: "groups matcher \<Rightarrow> string \<Rightarrow> string \<Rightarrow> bool" where
  "rejects M q r = (\<forall>g. M (edge g) (q, r) = None)"

definition pre :: "string \<Rightarrow> string \<Rightarrow> bool" where
  "pre w t = (take (length w) t = w)"

definition hits :: "string \<Rightarrow> string \<Rightarrow> bool" where
  \<comment> \<open>a word boundary follows the prefix \<open>w\<close> of the token \<open>t\<close>, a space following \<open>t\<close>\<close>
  "hits w t = (isWordChar (last w) \<noteq> (length w < length t \<and> isWordChar (t ! length w)))"

definition pick :: "string \<Rightarrow> string list \<Rightarrow> string option" where
  \<comment> \<open>the first alternative that matches at the token and ends on a word boundary\<close>
  "pick t ws = find (\<lambda>w. pre w t \<and> hits w t) ws"

definition lead :: "string option \<Rightarrow> string \<Rightarrow> string" where
  \<comment> \<open>the input left at a field: the field, a space, and what follows\<close>
  "lead v r = (case v of None \<Rightarrow> r | Some t \<Rightarrow> t @ CHR '' '' # r)"

definition shaped :: "string \<Rightarrow> bool" where
  "shaped t = (t \<noteq> [] \<and> isWordChar (hd t) \<and> isWordChar (last t))"

section \<open>Properties\<close>

subsection \<open>What a layout pass leaves alone\<close>

lemma onlyDraws_refl: "onlyDraws s s"
  by (simp add: onlyDraws_def)

lemma onlyDraws_sel:
  assumes "onlyDraws s s'"
  shows "style s' = style s" "padding s' = padding s" "textBounds s' = textBounds s"
    "canvas s' = canvas s" "colors s' = colors s" "strokeColors s' = strokeColors s"
    "fontStyles s' = fontStyles s" "fontWeights s' = fontWeights s" "autoRound s' = autoRound s"
    "priv_res s' = priv_res s" "priv_text s' = priv_text s"
    "priv_fontComponents s' = priv_fontComponents s" "priv_lineSpacing s' = priv_lineSpacing s"
    "dirty s' = dirty s" "texture s' = texture s" "parent s' = parent s"
    "transformUpdates s' = transformUpdates s" "pivot s' = pivot s" "renderable s' = renderable s"
    "priv_width s' = priv_width s" "priv_height s' = priv_height s"
proof -
  have e: "s' = s\<lparr>ctx := ctx s', priv_charCount := priv_charCount s'\<rparr>"
    using assms by (simp add: onlyDraws_def)
  show "style s' = style s" by (subst e) simp
  show "padding s' = padding s" by (subst e) simp
  show "textBounds s' = textBounds s" by (subst e) simp
  show "canvas s' = canvas s" by (subst e) simp
  show "colors s' = colors s" by (subst e) simp
  show "strokeColors s' = strokeColors s" by (subst e) simp
  show "fontStyles s' = fontStyles s" by (subst e) simp
  show "fontWeights s' = fontWeights s" by (subst e) simp
  show "autoRound s' = autoRound s" by (subst e) simp
  show "priv_res s' = priv_res s" by (subst e) simp
  show "priv_text s' = priv_text s" by (subst e) simp
  show "priv_fontComponents s' = priv_fontComponents s" by (subst e) simp
  show "priv_lineSpacing s' = priv_lineSpacing s" by (subst e) simp
  show "dirty s' = dirty s" by (subst e) simp
  show "texture s' = texture s" by (subst e) simp
  show "parent s' = parent s" by (subst e) simp
  show "transformUpdates s' = transformUpdates s" by (subst e) simp
  show "pivot s' = pivot s" by (subst e) simp
  show "renderable s' = renderable s" by (subst e) simp
  show "priv_width s' = priv_width s" by (subst e) simp
  show "priv_height s' = priv_height s" by (subst e) simp
qed

lemma od_ctx: "onlyDraws s t \<Longrightarrow> onlyDraws s (t\<lparr>ctx := c\<rparr>)"
proof -
  assume "onlyDraws s t"
  then have e: "t = s\<lparr>ctx := ctx t, priv_charCount := priv_charCount t\<rparr>"
    by (simp add: onlyDraws_def)
  show ?thesis unfolding onlyDraws_def by (subst e) simp
qed

lemma od_charCount: "onlyDraws s t \<Longrightarrow> onlyDraws s (t\<lparr>priv_charCount := n\<rparr>)"
proof -
  assume "onlyDraws s t"
  then have e: "t = s\<lparr>ctx := ctx t, priv_charCount := priv_charCount t\<rparr>"
    by (simp add: onlyDraws_def)
  show ?thesis unfolding onlyDraws_def by (subst e) simp
qed

lemma od_updateShadow: "onlyDraws s t \<Longrightarrow> onlyDraws s (updateShadow b t)"
  by (simp add: updateShadow_def od_ctx)

lemma od_renderTabLine: "onlyDraws s t \<Longrightarrow> onlyDraws s (renderTabLine h line x y f t)"
  by (simp add: renderTabLine_def Let_def od_ctx split: tabs.splits)

lemma od_if: "onlyDraws s a \<Longrightarrow> onlyDraws s b \<Longrightarrow> onlyDraws s (if c then a else b)"
  by simp

lemma od_case_option:
  "onlyDraws s a \<Longrightarrow> (\<And>v. onlyDraws s (g v)) \<Longrightarrow> onlyDraws s (case x of None \<Rightarrow> a | Some v \<Rightarrow> g v)"
  by (cases x) simp_all

lemma od_let_state:
  fixes e :: phaserText
  shows "onlyDraws s e \<Longrightarrow> (\<And>t. onlyDraws s t \<Longrightarrow> onlyDraws s (f t)) \<Longrightarrow> onlyDraws s (Let e f)"
  by simp

lemma od_let_components:
  fixes e :: components
  shows "(\<And>v. onlyDraws s (f v)) \<Longrightarrow> onlyDraws s (Let e f)"
  by simp

lemma od_let_jsnum:
  fixes e :: jsnum
  shows "(\<And>v. onlyDraws s (f v)) \<Longrightarrow> onlyDraws s (Let e f)"
  by simp

lemma od_let_real:
  fixes e :: real
  shows "(\<And>v. onlyDraws s (f v)) \<Longrightarrow> onlyDraws s (Let e f)"
  by simp

lemmas od_rules = od_let_state od_let_components od_let_jsnum od_let_real od_if od_case_option
  od_ctx od_charCount od_updateShadow od_renderTabLine

lemma od_updateLetter: "onlyDraws s t \<Longrightarrow> onlyDraws s (updateLetter h letter x y t)"
  unfolding updateLetter_def by (intro od_rules)

lemma od_updateLine: "onlyDraws s t \<Longrightarrow> onlyDraws s (updateLine h line x y t)"
proof (induction line arbitrary: x t)
  case Nil
  then show ?case by simp
next
  case (Cons c cs)
  show ?case
    unfolding updateLine.simps
    by (intro od_rules Cons.IH od_updateLetter Cons.prems)
qed

lemma od_drawLine: "onlyDraws s t \<Longrightarrow> onlyDraws s (drawLine h lh ls asc mx i line w t)"
  unfolding drawLine_def by (intro od_rules od_updateLine)

lemma od_drawLines: "onlyDraws s t \<Longrightarrow> onlyDraws s (drawLines h lh ls asc mx i ls' t)"
proof (induction ls' arbitrary: i t)
  case Nil
  then show ?case by simp
next
  case (Cons l rest)
  show ?case
    unfolding drawLines.simps
    by (intro Cons.IH od_drawLine Cons.prems)
qed

lemma onlyRenders_refl: "onlyRenders s s"
  by (simp add: onlyRenders_def)

lemma onlyRenders_sel:
  assumes "onlyRenders s s'"
  shows "style s' = style s" "padding s' = padding s" "textBounds s' = textBounds s"
    "colors s' = colors s" "strokeColors s' = strokeColors s"
    "fontStyles s' = fontStyles s" "fontWeights s' = fontWeights s" "autoRound s' = autoRound s"
    "priv_res s' = priv_res s" "priv_text s' = priv_text s"
    "priv_fontComponents s' = priv_fontComponents s" "priv_lineSpacing s' = priv_lineSpacing s"
    "dirty s' = dirty s" "parent s' = parent s" "transformUpdates s' = transformUpdates s"
proof -
  have e: "s' = s\<lparr> canvas := canvas s', ctx := ctx s', priv_charCount := priv_charCount s',
              priv_width := priv_width s', priv_height := priv_height s', pivot := pivot s',
              renderable := renderable s', texture := texture s' \<rparr>"
    using assms by (simp add: onlyRenders_def)
  show "style s' = style s" by (subst e) simp
  show "padding s' = padding s" by (subst e) simp
  show "textBounds s' = textBounds s" by (subst e) simp
  show "colors s' = colors s" by (subst e) simp
  show "strokeColors s' = strokeColors s" by (subst e) simp
  show "fontStyles s' = fontStyles s" by (subst e) simp
  show "fontWeights s' = fontWeights s" by (subst e) simp
  show "autoRound s' = autoRound s" by (subst e) simp
  show "priv_res s' = priv_res s" by (subst e) simp
  show "priv_text s' = priv_text s" by (subst e) simp
  show "priv_fontComponents s' = priv_fontComponents s" by (subst e) simp
  show "priv_lineSpacing s' = priv_lineSpacing s" by (subst e) simp
  show "dirty s' = dirty s" by (subst e) simp
  show "parent s' = parent s" by (subst e) simp
  show "transformUpdates s' = transformUpdates s" by (subst e) simp
qed

lemma or_step:
  assumes "onlyRenders s t"
  shows "onlyRenders s (t\<lparr>ctx := c\<rparr>)" "onlyRenders s (t\<lparr>canvas := cv\<rparr>)"
    "onlyRenders s (t\<lparr>texture := tx\<rparr>)" "onlyRenders s (t\<lparr>priv_charCount := n\<rparr>)"
    "onlyRenders s (t\<lparr>pivot := pv\<rparr>)" "onlyRenders s (t\<lparr>renderable := rb\<rparr>)"
    "onlyRenders s (t\<lparr>texture := tx, priv_width := w, priv_height := ht\<rparr>)"
proof -
  have e: "t = s\<lparr> canvas := canvas t, ctx := ctx t, priv_charCount := priv_charCount t,
              priv_width := priv_width t, priv_height := priv_height t, pivot := pivot t,
              renderable := renderable t, texture := texture t \<rparr>"
    using assms by (simp add: onlyRenders_def)
  show "onlyRenders s (t\<lparr>ctx := c\<rparr>)" unfolding onlyRenders_def by (subst e) simp
  show "onlyRenders s (t\<lparr>canvas := cv\<rparr>)" unfolding onlyRenders_def by (subst e) simp
  show "onlyRenders s (t\<lparr>texture := tx\<rparr>)" unfolding onlyRenders_def by (subst e) simp
  show "onlyRenders s (t\<lparr>priv_charCount := n\<rparr>)" unfolding onlyRenders_def by (subst e) simp
  show "onlyRenders s (t\<lparr>pivot := pv\<rparr>)" unfolding onlyRenders_def by (subst e) simp
  show "onlyRenders s (t\<lparr>renderable := rb\<rparr>)" unfolding onlyRenders_def by (subst e) simp
  show "onlyRenders s (t\<lparr>texture := tx, priv_width := w, priv_height := ht\<rparr>)"
    unfolding onlyRenders_def by (subst e) simp
qed

lemma or_onlyDraws: "onlyRenders s t \<Longrightarrow> onlyDraws t u \<Longrightarrow> onlyRenders s u"
proof -
  assume a: "onlyRenders s t" and b: "onlyDraws t u"
  have "u = t\<lparr>ctx := ctx u, priv_charCount := priv_charCount u\<rparr>"
    using b by (simp add: onlyDraws_def)
  then show ?thesis
    using or_step(1,4)[OF a] by (metis or_step(1) or_step(4) a)
qed

lemma or_drawLines: "onlyRenders s t \<Longrightarrow> onlyRenders s (drawLines h lh ls asc mx i l t)"
  by (rule or_onlyDraws[OF _ od_drawLines[OF onlyDraws_refl]])

lemma or_if: "onlyRenders s a \<Longrightarrow> onlyRenders s b \<Longrightarrow> onlyRenders s (if c then a else b)"
  by simp

lemma or_case_option:
  "onlyRenders s a \<Longrightarrow> (\<And>v. onlyRenders s (g v)) \<Longrightarrow>
   onlyRenders s (case x of None \<Rightarrow> a | Some v \<Rightarrow> g v)"
  by (cases x) simp_all

lemma or_let_state:
  fixes e :: phaserText
  shows "onlyRenders s e \<Longrightarrow> (\<And>t. onlyRenders s t \<Longrightarrow> onlyRenders s (f t)) \<Longrightarrow>
    onlyRenders s (Let e f)"
  by simp

lemma or_let_value:
  "(\<And>v::jsnum. onlyRenders s (f1 v)) \<Longrightarrow> onlyRenders s (Let e1 f1)"
  "(\<And>v::real. onlyRenders s (f2 v)) \<Longrightarrow> onlyRenders s (Let e2 f2)"
  "(\<And>v::string. onlyRenders s (f3 v)) \<Longrightarrow> onlyRenders s (Let e3 f3)"
  "(\<And>v::string list. onlyRenders s (f4 v)) \<Longrightarrow> onlyRenders s (Let e4 f4)"
  "(\<And>v::jsnum list. onlyRenders s (f5 v)) \<Longrightarrow> onlyRenders s (Let e5 f5)"
  "(\<And>v::fontProperties. onlyRenders s (f6 v)) \<Longrightarrow> onlyRenders s (Let e6 f6)"
  by simp_all

lemmas or_rules = or_let_state or_let_value or_if or_case_option or_step or_drawLines

lemma or_updateTexture: "onlyRenders s t \<Longrightarrow> onlyRenders s (updateTexture t)"
  unfolding updateTexture_def by (intro or_rules)

lemma onlyRenders_updateText: "onlyRenders s (updateText h s)"
  unfolding updateText_def by (intro or_rules or_updateTexture onlyRenders_refl)

subsection \<open>The height of the canvas\<close>

lemma canvas_updateTexture: "canvas (updateTexture s) = canvas s"
  by (simp add: updateTexture_def Let_def split: option.splits)

lemma canvas_drawLines: "canvas (drawLines h lh ls asc mx i l t) = canvas t"
  by (rule onlyDraws_sel(4)[OF od_drawLines[OF onlyDraws_refl]])

lemma cv_height_updateText:
  "cv_height (canvas (updateText h s)) =
     textHeight (lineHeightOf h s) (clampLineSpacing (lineHeightOf h s) (priv_lineSpacing s))
       (length (layoutLines h s)) * priv_res s"
proof -
  define s1 where "s1 = s\<lparr>texture := (texture s)\<lparr>base_resolution := priv_res s\<rparr>\<rparr>"
  define s2 where "s2 = s1\<lparr>ctx := (ctx s1)\<lparr>ctx_font := style_font (style s1)\<rparr>\<rparr>"
  define out0 where "out0 = priv_text s2"
  define out1 where "out1 =
            (if wordWrap (style s2)
             then runWordWrap (toDouble h) (measureText h (ctx_font (ctx s2)))
                    (wordWrapWidth (style s2)) (priv_text s2)
             else out0)"
  define lines where "lines = splitNewlines [] out1"
  define lineWidths where "lineWidths = lineWidthsOf h s2 lines"
  define maxLineWidth where "maxLineWidth = maxLineWidthOf lineWidths"
  define fontProps where "fontProps = determineFontProperties h (style_font (style s2))"
  define s3 where "s3 = s2\<lparr>canvas := (canvas s2)\<lparr>cv_width := jmul maxLineWidth (Val (priv_res s2))\<rparr>\<rparr>"
  define lineHeight where "lineHeight = lineHeightOf h s3"
  define lineSpacing where "lineSpacing = clampLineSpacing lineHeight (priv_lineSpacing s3)"
  define height where "height = textHeight lineHeight lineSpacing (length lines)"
  define s4 where "s4 = s3\<lparr>canvas := (canvas s3)\<lparr>cv_height := height * priv_res s3\<rparr>\<rparr>"
  define s5 where "s5 = s4\<lparr>ctx := (ctx s4)\<lparr>ctx_calls := ctx_calls (ctx s4) @ [Scale (priv_res s4) (priv_res s4)]\<rparr>\<rparr>"
  define s6 where "s6 = (if isCocoonJS h
               then s5\<lparr>ctx := (ctx s5)\<lparr>ctx_calls := ctx_calls (ctx s5) @
                      [ClearRect 0 0 (cv_width (canvas s5)) (cv_height (canvas s5))]\<rparr>\<rparr>
               else s5)"
  define s7 where "s7 = (case backgroundColor (style s6) of
                 Some bg \<Rightarrow>
                   if bg \<noteq> [] then
                     s6\<lparr>ctx := (ctx s6)\<lparr> ctx_fillStyle := bg,
                            ctx_calls := ctx_calls (ctx s6) @
                              [FillRect 0 0 (cv_width (canvas s6)) (cv_height (canvas s6))] \<rparr>\<rparr>
                   else s6
               | None \<Rightarrow> s6)"
  define s8 where "s8 = s7\<lparr>ctx := (ctx s7)\<lparr> ctx_fillStyle := fill (style s7),
                            ctx_font := style_font (style s7),
                            ctx_strokeStyle := stroke (style s7),
                            ctx_textBaseline := ''alphabetic'',
                            ctx_lineWidth := strokeThickness (style s7),
                            ctx_lineCap := ''round'',
                            ctx_lineJoin := ''round'' \<rparr>\<rparr>"
  define s9 where "s9 = s8\<lparr>priv_charCount := 0\<rparr>"
  define s10 where "s10 = drawLines h lineHeight lineSpacing (ascent fontProps) maxLineWidth 0 (zip lines lineWidths) s9"
  have L1: "\<And>f. Let (s\<lparr>texture := (texture s)\<lparr>base_resolution := priv_res s\<rparr>\<rparr>) f = f s1"
    by (simp only: s1_def Let_def)
  have L2: "\<And>f. Let (s1\<lparr>ctx := (ctx s1)\<lparr>ctx_font := style_font (style s1)\<rparr>\<rparr>) f = f s2"
    by (simp only: s2_def Let_def)
  have L3: "\<And>f. Let (priv_text s2) f = f out0"
    by (simp only: out0_def Let_def)
  have L4: "\<And>f. Let (if wordWrap (style s2)
             then runWordWrap (toDouble h) (measureText h (ctx_font (ctx s2)))
                    (wordWrapWidth (style s2)) (priv_text s2)
             else out0) f = f out1"
    by (simp only: out1_def Let_def)
  have L5: "\<And>f. Let (splitNewlines [] out1) f = f lines"
    by (simp only: lines_def Let_def)
  have L6: "\<And>f. Let (lineWidthsOf h s2 lines) f = f lineWidths"
    by (simp only: lineWidths_def Let_def)
  have L7: "\<And>f. Let (maxLineWidthOf lineWidths) f = f maxLineWidth"
    by (simp only: maxLineWidth_def Let_def)
  have L8: "\<And>f. Let (determineFontProperties h (style_font (style s2))) f = f fontProps"
    by (simp only: fontProps_def Let_def)
  have L9: "\<And>f. Let (s2\<lparr>canvas := (canvas s2)\<lparr>cv_width := jmul maxLineWidth (Val (priv_res s2))\<rparr>\<rparr>) f = f s3"
    by (simp only: s3_def Let_def)
  have L10: "\<And>f. Let (lineHeightOf h s3) f = f lineHeight"
    by (simp only: lineHeight_def Let_def)
  have L11: "\<And>f. Let (clampLineSpacing lineHeight (priv_lineSpacing s3)) f = f lineSpacing"
    by (simp only: lineSpacing_def Let_def)
  have L12: "\<And>f. Let (textHeight lineHeight lineSpacing (length lines)) f = f height"
    by (simp only: height_def Let_def)
  have L13: "\<And>f. Let (s3\<lparr>canvas := (canvas s3)\<lparr>cv_height := height * priv_res s3\<rparr>\<rparr>) f = f s4"
    by (simp only: s4_def Let_def)
  have L14: "\<And>f. Let (s4\<lparr>ctx := (ctx s4)\<lparr>ctx_calls := ctx_calls (ctx s4) @ [Scale (priv_res s4) (priv_res s4)]\<rparr>\<rparr>) f = f s5"
    by (simp only: s5_def Let_def)
  have L15: "\<And>f. Let (if isCocoonJS h
               then s5\<lparr>ctx := (ctx s5)\<lparr>ctx_calls := ctx_calls (ctx s5) @
                      [ClearRect 0 0 (cv_width (canvas s5)) (cv_height (canvas s5))]\<rparr>\<rparr>
               else s5) f = f s6"
    by (simp only: s6_def Let_def)
  have L16: "\<And>f. Let (case backgroundColor (style s6) of
                 Some bg \<Rightarrow>
                   if bg \<noteq> [] then
                     s6\<lparr>ctx := (ctx s6)\<lparr> ctx_fillStyle := bg,
                            ctx_calls := ctx_calls (ctx s6) @
                              [FillRect 0 0 (cv_width (canvas s6)) (cv_height (canvas s6))] \<rparr>\<rparr>
                   else s6
               | None \<Rightarrow> s6) f = f s7"
    by (simp only: s7_def Let_def)
  have L17: "\<And>f. Let (s7\<lparr>ctx := (ctx s7)\<lparr> ctx_fillStyle := fill (style s7),
                            ctx_font := style_font (style s7),
                            ctx_strokeStyle := stroke (style s7),
                            ctx_textBaseline := ''alphabetic'',
                            ctx_lineWidth := strokeThickness (style s7),
                            ctx_lineCap := ''round'',
                            ctx_lineJoin := ''round'' \<rparr>\<rparr>) f = f s8"
    by (simp only: s8_def Let_def)
  have L18: "\<And>f. Let (s8\<lparr>priv_charCount := 0\<rparr>) f = f s9"
    by (simp only: s9_def Let_def)
  have L19: "\<And>f. Let (drawLines h lineHeight lineSpacing (ascent fontProps) maxLineWidth 0 (zip lines lineWidths) s9) f = f s10"
    by (simp only: s10_def Let_def)
  note L = L1 L2 L3 L4 L5 L6 L7 L8 L9 L10 L11 L12 L13 L14 L15 L16 L17 L18 L19
  have main: "updateText h s = updateTexture s10"
    unfolding updateText_def L by (rule refl)
  have c10: "canvas s10 = canvas s9" by (simp add: s10_def canvas_drawLines)
  have c9: "canvas s9 = canvas s8" by (simp add: s9_def)
  have c8: "canvas s8 = canvas s7" by (simp add: s8_def)
  have c7: "canvas s7 = canvas s6" by (simp add: s7_def split: option.splits)
  have c6: "canvas s6 = canvas s5" by (simp add: s6_def)
  have c5: "canvas s5 = canvas s4" by (simp add: s5_def)
  have c4: "cv_height (canvas s4) = height * priv_res s3" by (simp add: s4_def)
  have i3: "style s3 = style s" "padding s3 = padding s" "priv_res s3 = priv_res s"
    "priv_lineSpacing s3 = priv_lineSpacing s"
    by (simp_all add: s3_def s2_def s1_def)
  have i2: "style s2 = style s" "priv_text s2 = priv_text s" "ctx_font (ctx s2) = style_font (style s)"
    by (simp_all add: s2_def s1_def)
  have lh: "lineHeight = lineHeightOf h s"
    by (simp add: lineHeight_def lineHeightOf_def i3)
  have ll: "lines = layoutLines h s"
    by (simp add: lines_def out1_def out0_def layoutLines_def i2)
  show ?thesis
    by (simp add: main canvas_updateTexture c10 c9 c8 c7 c6 c5 c4 height_def lineSpacing_def lh ll i3)
qed

lemmas jsnum_ops = jadd_def jsub_def jmul_def jdiv_def jmax_def jneg_def

subsection \<open>Line spacing (C7)\<close>

text \<open>
  Claim C7. A negative line spacing whose magnitude exceeds the line height is clamped to
  the negated line height before the total height is computed: the canvas gets the
  height it gets for a spacing of exactly minus the line height. With a line height of
  24, a spacing of -1000 gives the same canvas height as a spacing of -24, whatever the
  text and so whatever the number of lines.
\<close>

theorem negative_lineSpacing_clamped:
  assumes "ls < 0" and "\<bar>ls\<bar> > lineHeightOf h s"
  shows "clampLineSpacing (lineHeightOf h s) ls = - lineHeightOf h s
    \<and> cv_height (canvas (updateText h (s\<lparr>priv_lineSpacing := ls\<rparr>)))
        = cv_height (canvas (updateText h (s\<lparr>priv_lineSpacing := - lineHeightOf h s\<rparr>)))
    \<and> (lineHeightOf h s = 24 \<longrightarrow>
         cv_height (canvas (updateText h (s\<lparr>priv_lineSpacing := - 1000\<rparr>)))
         = cv_height (canvas (updateText h (s\<lparr>priv_lineSpacing := - 24\<rparr>))))"
proof -
  have lh: "\<And>v. lineHeightOf h (s\<lparr>priv_lineSpacing := v\<rparr>) = lineHeightOf h s"
    by (simp add: lineHeightOf_def)
  have ll: "\<And>v. layoutLines h (s\<lparr>priv_lineSpacing := v\<rparr>) = layoutLines h s"
    by (simp add: layoutLines_def)
  have c: "clampLineSpacing (lineHeightOf h s) ls = - lineHeightOf h s"
    using assms by (simp add: clampLineSpacing_def)
  have c2: "clampLineSpacing (lineHeightOf h s) (- lineHeightOf h s) = - lineHeightOf h s"
    by (simp add: clampLineSpacing_def)
  have c3: "clampLineSpacing 24 (- 1000) = - 24"
    by (simp add: clampLineSpacing_def)
  have c4: "clampLineSpacing 24 (- 24) = - 24"
    by (simp add: clampLineSpacing_def)
  show ?thesis
    by (simp add: cv_height_updateText lh ll c c2 c3 c4)
qed

lemma lineHeightOf_threeLines: "lineHeightOf exampleHost threeLines = 24"
  by (simp add: lineHeightOf_def threeLines_def exampleHost_def exampleText_def exampleStyle_def)

lemma layoutLines_threeLines: "layoutLines exampleHost threeLines = [''a'', ''b'', ''c'']"
  by (simp add: layoutLines_def threeLines_def exampleText_def exampleStyle_def)

theorem negative_lineSpacing_clamped_witness:
  "(- 1000 :: real) < 0 \<and> \<bar>- 1000 :: real\<bar> > lineHeightOf exampleHost threeLines
   \<and> lineHeightOf exampleHost threeLines = 24
   \<and> clampLineSpacing (lineHeightOf exampleHost threeLines) (- 1000) = - 24
   \<and> cv_height (canvas (updateText exampleHost (threeLines\<lparr>priv_lineSpacing := - 1000\<rparr>)))
      = cv_height (canvas (updateText exampleHost (threeLines\<lparr>priv_lineSpacing := - 24\<rparr>)))
   \<and> cv_height (canvas (updateText exampleHost (threeLines\<lparr>priv_lineSpacing := - 1000\<rparr>))) = 24"
proof -
  have a: "(- 1000 :: real) < 0" by simp
  have b: "\<bar>- 1000 :: real\<bar> > lineHeightOf exampleHost threeLines"
    by (simp add: lineHeightOf_threeLines)
  have lh: "lineHeightOf exampleHost (threeLines\<lparr>priv_lineSpacing := - 1000\<rparr>) = 24"
    using lineHeightOf_threeLines by (simp add: lineHeightOf_def)
  have ll: "layoutLines exampleHost (threeLines\<lparr>priv_lineSpacing := - 1000\<rparr>) = [''a'', ''b'', ''c'']"
    by (simp add: layoutLines_def threeLines_def exampleText_def exampleStyle_def)
  have r: "priv_res threeLines = 1"
    by (simp add: threeLines_def exampleText_def)
  have v: "cv_height (canvas (updateText exampleHost (threeLines\<lparr>priv_lineSpacing := - 1000\<rparr>))) = 24"
    by (simp add: cv_height_updateText lh ll r clampLineSpacing_def textHeight_def)
  show ?thesis
    using negative_lineSpacing_clamped[OF a b] v
    by (simp add: lineHeightOf_threeLines)
qed

subsection \<open>Line width under an array of tabs (C5)\<close>

lemma tabStopsWidth_Suc:
  "segs \<noteq> [] \<Longrightarrow>
   tabStopsWidth m stops segs (Suc c) tab lw =
     jadd (foldl jadd tab (map (arrayGet stops) [c..<c + length segs]))
          (Val (mathCeil (m (last segs))))"
proof (induction segs arbitrary: c tab lw)
  case Nil
  then show ?case by simp
next
  case (Cons t ts)
  show ?case
  proof (cases "ts = []")
    case True
    then show ?thesis by (simp add: Let_def)
  next
    case False
    have u: "[c..<Suc (c + length ts)] = c # [Suc c..<Suc (c + length ts)]"
      by (rule upt_conv_Cons) simp
    show ?thesis
      using Cons.IH[OF False, of "Suc c"] False
      by (simp add: Let_def u del: upt_Suc)
  qed
qed

lemma tabStopsWidth_0:
  assumes "segs \<noteq> []"
  shows "tabStopsWidth m stops segs 0 (Val 0) lw =
     jadd (tabOffset stops (length segs - 1)) (Val (mathCeil (m (last segs))))"
proof (cases segs)
  case Nil
  then show ?thesis using assms by simp
next
  case (Cons t ts)
  show ?thesis
  proof (cases "ts = []")
    case True
    then show ?thesis using Cons by (simp add: Let_def tabOffset_def)
  next
    case False
    then show ?thesis
      using Cons tabStopsWidth_Suc[OF False, of m stops 0 "Val 0"]
      by (simp add: Let_def tabOffset_def)
  qed
qed

lemma splitOn_nonempty: "splitOn sep cur s \<noteq> []"
  by (induction s arbitrary: cur) auto

lemma split_nonempty: "split sep s \<noteq> []"
  by (simp add: split_def splitOn_nonempty)

text \<open>
  Claim C5. Under an array of tabs the loop assigns \<^verbatim>\<open>lineWidth\<close> anew for every segment:
  the width of a line is the cumulative tab offset of its last segment plus the measured
  width of that segment, rounded up, and \<^verbatim>\<open>lineWidths[i]\<close> is its ceiling. Neither the
  earlier segments nor the padding and the stroke thickness, which only enter the initial
  value, are part of it.
\<close>

theorem array_tabs_line_width:
  assumes "tabs (style s) = TabStops ident stops"
  shows "lineWidthOf h s line =
           jadd (tabOffset stops (length (split (CHR 0x09) line) - 1))
                (Val (mathCeil (measureText h (ctx_font (ctx s)) (last (split (CHR 0x09) line)))))
    \<and> lineWidthsOf h s [line] =
           [jceil (jadd (tabOffset stops (length (split (CHR 0x09) line) - 1))
                (Val (mathCeil (measureText h (ctx_font (ctx s)) (last (split (CHR 0x09) line))))))]
    \<and> lineWidthOf h (s\<lparr>padding := p, style := (style s)\<lparr>strokeThickness := t\<rparr>\<rparr>) line
         = lineWidthOf h s line"
proof -
  have a: "\<And>s'. tabs (style s') = TabStops ident stops \<Longrightarrow> lineWidthOf h s' line =
           jadd (tabOffset stops (length (split (CHR 0x09) line) - 1))
                (Val (mathCeil (measureText h (ctx_font (ctx s')) (last (split (CHR 0x09) line)))))"
    by (simp add: lineWidthOf_def Let_def tabStopsWidth_0[OF split_nonempty])
  show ?thesis
    using a[of s] a[of "s\<lparr>padding := p, style := (style s)\<lparr>strokeThickness := t\<rparr>\<rparr>"] assms
    by (simp add: lineWidthsOf_def)
qed

lemma split_tabbedLine: "split (CHR 0x09) tabbedLine = [''a'', ''bb'', ''ccc'']"
  by (simp add: split_def tabbedLine_def)

theorem array_tabs_line_width_witness:
  "tabs (style tabbedText) = TabStops 0 [30, 80]
   \<and> lineWidthOf exampleHost tabbedText tabbedLine = Val 140
   \<and> lineWidthOf exampleHost (tabbedText\<lparr>padding := (7, 7), style := (style tabbedText)\<lparr>strokeThickness := 9\<rparr>\<rparr>)
        tabbedLine = Val 140"
proof -
  have t: "tabs (style tabbedText) = TabStops 0 [30, 80]"
    by (simp add: tabbedText_def exampleStyle_def)
  have o: "tabOffset [30, 80] (Suc (Suc 0)) = Val 110"
    by (simp add: tabOffset_def arrayGet_def jadd_def)
  have m: "measureText exampleHost (ctx_font (ctx tabbedText)) ''ccc'' = 30"
    by (simp add: exampleHost_def)
  show ?thesis
    using array_tabs_line_width[OF t, where h = exampleHost and line = tabbedLine and p = "(7, 7)" and t = 9]
    by (simp add: t split_tabbedLine o m mathCeil_def jadd_def)
qed

subsection \<open>Alignment within the text bounds (C8)\<close>

text \<open>
  Claim C8. With the text bounds (0, 0, 800, 600), horizontal alignment
  \<^verbatim>\<open>center\<close> and vertical alignment \<^verbatim>\<open>bottom\<close>, a canvas of 100 by 40 is placed at the
  offset (350, 560), which \<open>updateTexture\<close> stores as the pivot (-350, -560); the
  call of \<open>setTextBounds\<close> that sets these bounds leaves that pivot.
\<close>

theorem bounds_alignment_center_bottom:
  assumes "boundsAlignH (style s) = ''center''"
    and "boundsAlignV (style s) = ''bottom''"
    and "cv_width (canvas s) = Val 100"
    and "cv_height (canvas s) = 40"
  shows "(textBounds s = Some \<lparr>rect_x = 0, rect_y = 0, rect_width = 800, rect_height = 600\<rparr>
          \<longrightarrow> pivot (updateTexture s) = (Val (- 350), - 560))
       \<and> pivot (setTextBounds (Some (0, 0, 800, 600)) s) = (Val (- 350), - 560)"
  using assms by (simp add: setTextBounds_def updateTexture_def Let_def jsnum_ops halfWidth_def)

theorem bounds_alignment_center_bottom_witness:
  "boundsAlignH (style renderedText) = ''center'' \<and> boundsAlignV (style renderedText) = ''bottom''
   \<and> cv_width (canvas renderedText) = Val 100 \<and> cv_height (canvas renderedText) = 40
   \<and> textBounds (setTextBounds (Some (0, 0, 800, 600)) renderedText)
       = Some \<lparr>rect_x = 0, rect_y = 0, rect_width = 800, rect_height = 600\<rparr>
   \<and> pivot (updateTexture (setTextBounds (Some (0, 0, 800, 600)) renderedText)) = (Val (- 350), - 560)
   \<and> pivot (setTextBounds (Some (0, 0, 800, 600)) renderedText) = (Val (- 350), - 560)"
proof -
  have a: "boundsAlignH (style renderedText) = ''center''" "boundsAlignV (style renderedText) = ''bottom''"
    "cv_width (canvas renderedText) = Val 100" "cv_height (canvas renderedText) = 40"
    by (simp_all add: renderedText_def exampleText_def exampleStyle_def)
  let ?t = "setTextBounds (Some (0, 0, 800, 600)) renderedText"
  have b: "boundsAlignH (style ?t) = ''center''" "boundsAlignV (style ?t) = ''bottom''"
    "cv_width (canvas ?t) = Val 100" "cv_height (canvas ?t) = 40"
    "textBounds ?t = Some \<lparr>rect_x = 0, rect_y = 0, rect_width = 800, rect_height = 600\<rparr>"
    by (simp_all add: setTextBounds_def updateTexture_def Let_def renderedText_def exampleText_def
        exampleStyle_def)
  show ?thesis
    using bounds_alignment_center_bottom[OF a] bounds_alignment_center_bottom[OF b(1-4)] a b
    by simp
qed

subsection \<open>setText without its argument (C9)\<close>

text \<open>
  Claim C9 says that every public mutation is total on its declared domain. The
  documentation of \<open>setText\<close> declares its argument optional, but the method calls
  \<^verbatim>\<open>text.toString()\<close> first: without an argument, or with \<^verbatim>\<open>null\<close>, it throws a
  \<^verbatim>\<open>TypeError\<close>, and so does an assignment of such a value to the property
  \<^verbatim>\<open>text\<close>. (The constructor guards the same conversion.)
\<close>

theorem setText_without_argument_throws:
  "setText h Undefined s = Inl TypeError \<and> setText h Null s = Inl TypeError
   \<and> set_text h Undefined s = Inl TypeError \<and> set_text h Null s = Inl TypeError
   \<and> perform h (SetText Undefined) s = Inl TypeError"
  by (simp add: setText_def set_text_def toString_def)

subsection \<open>Drawing under an array of tabs (C4)\<close>

text \<open>
  Claim C4. The documentation of the property \<^verbatim>\<open>tabs\<close> says of the array [100, 200]
  that it sets the first tab at 100 pixels and the second at 200: the entries are
  positions, as the claim reads them. The code adds every entry to the position of the
  tab before it (\<^verbatim>\<open>tab += tabs[c - 1]\<close>). With the tabs [30, 80] and a line of three
  segments, \<open>renderTabLine\<close> draws the first segment at the start \<open>x\<close> of the line, the
  second at \<open>x + 30\<close> and the third at \<open>x + 110\<close>, not at \<open>x + 80\<close>, in the fill
  and in the stroke pass.
\<close>

theorem array_tabs_accumulate:
  assumes "tabs (style s) = TabStops ident [30, 80]"
    and "split (CHR 0x09) line = [a, b, c]"
  shows "ctx_calls (ctx (renderTabLine h line (Val x) y True s))
           = ctx_calls (ctx s) @ [FillText a (Val x) y, FillText b (Val (x + 30)) y, FillText c (Val (x + 110)) y]
       \<and> ctx_calls (ctx (renderTabLine h line (Val x) y False s))
           = ctx_calls (ctx s) @ [StrokeText a (Val x) y, StrokeText b (Val (x + 30)) y, StrokeText c (Val (x + 110)) y]"
  using assms
  by (simp add: renderTabLine_def Let_def drawText_def arrayGet_def jadd_def)

theorem array_tabs_accumulate_witness:
  "tabs (style tabbedText) = TabStops 0 [30, 80]
   \<and> split (CHR 0x09) tabbedLine = [''a'', ''bb'', ''ccc'']
   \<and> ctx_calls (ctx (renderTabLine exampleHost tabbedLine (Val 5) 15 True tabbedText))
       = [FillText ''a'' (Val 5) 15, FillText ''bb'' (Val 35) 15, FillText ''ccc'' (Val 115) 15]"
proof -
  have t: "tabs (style tabbedText) = TabStops 0 [30, 80]"
    by (simp add: tabbedText_def exampleStyle_def)
  have c: "ctx_calls (ctx tabbedText) = []"
    by (simp add: tabbedText_def exampleText_def)
  show ?thesis
    using array_tabs_accumulate[OF t split_tabbedLine, of exampleHost 5 15]
    by (simp add: t split_tabbedLine c)
qed

text \<open>
  Claim C4 places the third segment at the offset 80; the code draws it at 110.
\<close>

theorem array_tabs_not_absolute:
  "ctx_calls (ctx (renderTabLine exampleHost tabbedLine (Val 0) 15 True tabbedText))
     = [FillText ''a'' (Val 0) 15, FillText ''bb'' (Val 30) 15, FillText ''ccc'' (Val 110) 15]
   \<and> ctx_calls (ctx (renderTabLine exampleHost tabbedLine (Val 0) 15 True tabbedText)) ! 2
     \<noteq> FillText ''ccc'' (Val 80) 15"
  by (simp add: renderTabLine_def Let_def drawText_def arrayGet_def jadd_def split_tabbedLine
      tabbedText_def exampleText_def exampleStyle_def)

text \<open>
  On the array of the documentation the second tab comes out at 300 pixels, not at 200.
\<close>

lemma documented_tabs_accumulate:
  "ctx_calls (ctx (renderTabLine exampleHost tabbedLine (Val 0) 15 True documentedTabs))
     = [FillText ''a'' (Val 0) 15, FillText ''bb'' (Val 100) 15, FillText ''ccc'' (Val 300) 15]"
  by (simp add: renderTabLine_def Let_def drawText_def arrayGet_def jadd_def split_tabbedLine
      documentedTabs_def exampleText_def exampleStyle_def)

subsection \<open>Assigning a value a property already has (C10)\<close>

text \<open>
  Claim C10. A setter guarded by \<^verbatim>\<open>value !== current\<close> returns the object as it was, in
  every field, when the value assigned is the current one. For \<^verbatim>\<open>tabs\<close> the current
  value is an array only when it is the same array object, which is what \<^verbatim>\<open>!==\<close>
  compares; \<^verbatim>\<open>shadowStroke\<close> and \<^verbatim>\<open>shadowFill\<close> have a current value once they are set.
\<close>

theorem comparing_setters_keep_equal_value:
  "set_fill (fill (style s)) s = s
   \<and> set_align (align (style s)) s = s
   \<and> set_stroke (stroke (style s)) s = s
   \<and> set_strokeThickness (strokeThickness (style s)) s = s
   \<and> set_wordWrap (wordWrap (style s)) s = s
   \<and> set_wordWrapWidth (wordWrapWidth (style s)) s = s
   \<and> set_text h (Str (priv_text s)) s = Inr s
   \<and> set_resolution (priv_res s) s = s
   \<and> (tabsStrictEq v (tabs (style s)) \<longrightarrow> set_tabs v s = s)
   \<and> set_boundsAlignH (boundsAlignH (style s)) s = s
   \<and> set_boundsAlignV (boundsAlignV (style s)) s = s
   \<and> set_lineSpacing (priv_lineSpacing s) s = s
   \<and> set_shadowOffsetX (shadowOffsetX (style s)) s = s
   \<and> set_shadowOffsetY (shadowOffsetY (style s)) s = s
   \<and> set_shadowColor (shadowColor (style s)) s = s
   \<and> set_shadowBlur (shadowBlur (style s)) s = s
   \<and> (shadowStroke (style s) = Some b \<longrightarrow> set_shadowStroke b s = s)
   \<and> (shadowFill (style s) = Some b \<longrightarrow> set_shadowFill b s = s)"
  by (simp add: set_fill_def set_align_def set_stroke_def set_strokeThickness_def set_wordWrap_def
      set_wordWrapWidth_def set_text_def set_resolution_def set_tabs_def set_boundsAlignH_def
      set_boundsAlignV_def set_lineSpacing_def set_shadowOffsetX_def set_shadowOffsetY_def
      set_shadowColor_def set_shadowBlur_def set_shadowStroke_def set_shadowFill_def)

theorem comparing_setters_keep_equal_value_witness:
  "tabsStrictEq (TabStops 0 [30, 80]) (tabs (style shadowedText))
   \<and> set_tabs (TabStops 0 [30, 80]) shadowedText = shadowedText
   \<and> shadowStroke (style shadowedText) = Some True
   \<and> set_shadowStroke True shadowedText = shadowedText
   \<and> shadowFill (style shadowedText) = Some True
   \<and> set_shadowFill True shadowedText = shadowedText
   \<and> set_fill ''black'' shadowedText = shadowedText
   \<and> set_text exampleHost (Str ''Photon Storm'') shadowedText = Inr shadowedText"
proof -
  have a: "tabsStrictEq (TabStops 0 [30, 80]) (tabs (style shadowedText))"
    "shadowStroke (style shadowedText) = Some True" "shadowFill (style shadowedText) = Some True"
    "fill (style shadowedText) = ''black''" "priv_text shadowedText = ''Photon Storm''"
    by (simp_all add: shadowedText_def setShadow_def tabbedText_def exampleText_def exampleStyle_def)
  show ?thesis
    using comparing_setters_keep_equal_value[of shadowedText exampleHost "TabStops 0 [30, 80]" True] a
    by simp
qed

subsection \<open>The dirty flag (C3)\<close>

lemma laysOut_only:
  "laysOut op \<Longrightarrow>
   \<not> alwaysMarks op \<and> \<not> isSetTextBounds op \<and> \<not> isFontAssignment op \<and> \<not> clamps op s"
  by (cases op) simp_all

lemma isFontAssignment_only:
  "isFontAssignment op \<Longrightarrow>
   \<not> alwaysMarks op \<and> \<not> isSetTextBounds op \<and> \<not> laysOut op \<and> \<not> clamps op s"
  by (cases op) simp_all

lemma flush_disciplined:
  assumes "laysOut op"
  shows "disciplined h op s (if dirty s then (updateText h s)\<lparr>dirty := False\<rparr> else s)"
  using assms laysOut_only[OF assms, of s] onlyRenders_sel[OF onlyRenders_updateText[of s h]]
  by (simp add: disciplined_def contentChanged_def)

lemma updateTexture_frame:
  "style (updateTexture s) = style s" "priv_text (updateTexture s) = priv_text s"
  "colors (updateTexture s) = colors s" "strokeColors (updateTexture s) = strokeColors s"
  "fontStyles (updateTexture s) = fontStyles s" "fontWeights (updateTexture s) = fontWeights s"
  "priv_res (updateTexture s) = priv_res s" "dirty (updateTexture s) = dirty s"
  using onlyRenders_sel[OF or_updateTexture[OF onlyRenders_refl], of s] by simp_all

lemma marked_disciplined:
  assumes "dirty s'" and "\<not> isSetTextBounds op" and "\<not> isFontAssignment op"
  shows "disciplined h op s s'"
  using assms by (simp add: disciplined_def)

lemma unchanged_disciplined:
  assumes "\<not> alwaysMarks op" and "\<not> isSetTextBounds op" and "\<not> isFontAssignment op"
  shows "disciplined h op s s"
  using assms by (simp add: disciplined_def contentChanged_def)

lemma dirty_setStyle: "dirty (setStyle h a s)"
  by (simp add: setStyle_def Let_def)

lemma setText_marks: "setText h v s = Inr s' \<Longrightarrow> dirty s'"
  by (auto simp add: setText_def split: sum.splits)

lemma parseList_marks: "parseList h (Items l) s = Inr s' \<Longrightarrow> dirty s'"
  by (auto simp add: parseList_def split: sum.splits)

lemma set_text_cases: "set_text h v s = Inr s' \<Longrightarrow> s' = s \<or> dirty s'"
  by (auto simp add: set_text_def Let_def updateTransform_def split: sum.splits if_splits)

lemma font_setter_disciplined:
  assumes "isFontAssignment op"
  shows "disciplined h op s (updateFont c (s\<lparr>priv_fontComponents := c\<rparr>))"
proof -
  note o = isFontAssignment_only[OF assms, of s]
  let ?t = "s\<lparr>priv_fontComponents := c\<rparr>"
  show ?thesis
  proof (cases "style_font (style s) = componentsToFont c")
    case True
    then have "updateFont c ?t = ?t" by (simp add: updateFont_def)
    then show ?thesis
      using assms o True by (simp add: disciplined_def contentChanged_def)
  next
    case False
    have d: "dirty (updateFont c ?t)"
      and f: "style_font (style (updateFont c ?t)) = componentsToFont c"
      and p: "priv_fontComponents (updateFont c ?t) = c"
      using False by (simp_all add: updateFont_def Let_def updateTransform_def)
    show ?thesis
      using assms o False False[symmetric] d f p by (simp add: disciplined_def)
  qed
qed

lemma same_or_marked:
  assumes "s' = s \<or> dirty s'" and "\<not> alwaysMarks op" and "\<not> isSetTextBounds op"
    and "\<not> isFontAssignment op"
  shows "disciplined h op s s'"
  using assms unchanged_disciplined marked_disciplined by blast

lemma dirty_setTextBounds: "dirty (setTextBounds b s) = dirty s"
  by (simp add: setTextBounds_def Let_def updateTexture_frame split: option.splits prod.splits)

lemma setTextBounds_content:
  assumes "\<not> clamps (SetTextBounds b) s"
  shows "\<not> contentChanged s (setTextBounds b s)"
proof (cases b)
  case None
  then show ?thesis
    by (simp add: setTextBounds_def contentChanged_def updateTexture_frame)
next
  case (Some r)
  obtain x y width height where r: "r = (x, y, width, height)" by (cases r) auto
  have "\<not> wordWrapWidth (style s) > width" using assms Some r by simp
  then show ?thesis
    using Some r by (simp add: setTextBounds_def Let_def contentChanged_def updateTexture_frame)
qed

lemma setTextBounds_disciplined: "disciplined h (SetTextBounds b) s (setTextBounds b s)"
  using setTextBounds_content[of b s]
  by (auto simp add: disciplined_def dirty_setTextBounds)

lemma comparing_setters_cases:
  "set_fill v1 s = s \<or> dirty (set_fill v1 s)"
  "set_align v1 s = s \<or> dirty (set_align v1 s)"
  "set_resolution v2 s = s \<or> dirty (set_resolution v2 s)"
  "set_tabs v3 s = s \<or> dirty (set_tabs v3 s)"
  "set_boundsAlignH v1 s = s \<or> dirty (set_boundsAlignH v1 s)"
  "set_boundsAlignV v1 s = s \<or> dirty (set_boundsAlignV v1 s)"
  "set_stroke v1 s = s \<or> dirty (set_stroke v1 s)"
  "set_strokeThickness v2 s = s \<or> dirty (set_strokeThickness v2 s)"
  "set_wordWrap v4 s = s \<or> dirty (set_wordWrap v4 s)"
  "set_wordWrapWidth v2 s = s \<or> dirty (set_wordWrapWidth v2 s)"
  "set_lineSpacing v2 s = s \<or> dirty (set_lineSpacing v2 s)"
  "set_shadowOffsetX v2 s = s \<or> dirty (set_shadowOffsetX v2 s)"
  "set_shadowOffsetY v2 s = s \<or> dirty (set_shadowOffsetY v2 s)"
  "set_shadowColor v1 s = s \<or> dirty (set_shadowColor v1 s)"
  "set_shadowBlur v2 s = s \<or> dirty (set_shadowBlur v2 s)"
  "set_shadowStroke v4 s = s \<or> dirty (set_shadowStroke v4 s)"
  "set_shadowFill v4 s = s \<or> dirty (set_shadowFill v4 s)"
  by (simp_all add: set_fill_def set_align_def set_stroke_def set_strokeThickness_def set_wordWrap_def
      set_wordWrapWidth_def set_resolution_def set_tabs_def set_boundsAlignH_def
      set_boundsAlignV_def set_lineSpacing_def set_shadowOffsetX_def set_shadowOffsetY_def
      set_shadowColor_def set_shadowBlur_def set_shadowStroke_def set_shadowFill_def
      Let_def updateTransform_def)

lemma run_setters_mark:
  "dirty (setShadow x y color blur ss sf s)" "dirty (clearColors s)" "dirty (clearFontValues s)"
  "dirty (addColor c p s)" "dirty (addStrokeColor c p s)" "dirty (addFontStyle c p s)"
  "dirty (addFontWeight c p s)"
  by (simp_all add: setShadow_def clearColors_def clearFontValues_def addColor_def
      addStrokeColor_def addFontStyle_def addFontWeight_def Let_def)

lemma perform_disciplined:
  assumes "perform h op s = Inr s'"
  shows "disciplined h op s s'"
proof (cases op)
  case (SetShadow x y color blur ss sf)
  then show ?thesis using assms by (auto intro!: marked_disciplined run_setters_mark)
next
  case (SetStyle a)
  then show ?thesis using assms by (auto intro!: marked_disciplined dirty_setStyle)
next
  case ClearColors
  then show ?thesis using assms by (auto intro!: marked_disciplined run_setters_mark)
next
  case ClearFontValues
  then show ?thesis using assms by (auto intro!: marked_disciplined run_setters_mark)
next
  case (AddColor c p)
  then show ?thesis using assms by (auto intro!: marked_disciplined run_setters_mark)
next
  case (AddStrokeColor c p)
  then show ?thesis using assms by (auto intro!: marked_disciplined run_setters_mark)
next
  case (AddFontStyle c p)
  then show ?thesis using assms by (auto intro!: marked_disciplined run_setters_mark)
next
  case (AddFontWeight c p)
  then show ?thesis using assms by (auto intro!: marked_disciplined run_setters_mark)
next
  case (SetText v)
  then show ?thesis using assms setText_marks[of h v s s'] by (simp add: marked_disciplined)
next
  case (ParseList l)
  show ?thesis
  proof (cases l)
    case NotAnArray
    then show ?thesis using assms ParseList by (simp add: parseList_def unchanged_disciplined)
  next
    case (Items items)
    then show ?thesis
      using assms ParseList parseList_marks[of h items s s'] by (simp add: marked_disciplined)
  qed
next
  case (SetTextBounds b)
  then show ?thesis using assms by (auto simp add: setTextBounds_disciplined)
next
  case RenderWebGL
  then show ?thesis using assms flush_disciplined[of op h s] by (auto simp add: renderWebGL_def)
next
  case RenderCanvas
  then show ?thesis using assms flush_disciplined[of op h s] by (auto simp add: renderCanvas_def)
next
  case GetBounds
  then show ?thesis using assms flush_disciplined[of op h s] by (auto simp add: getBounds_def)
next
  case GetWidth
  then show ?thesis using assms flush_disciplined[of op h s] by (auto simp add: get_width_def)
next
  case GetHeight
  then show ?thesis using assms flush_disciplined[of op h s] by (auto simp add: get_height_def)
next
  case (AssignText v)
  then show ?thesis using assms set_text_cases[of h v s s'] by (simp add: same_or_marked)
next
  case (AssignCssFont v)
  then show ?thesis
    using assms by (auto simp add: set_cssFont_def Let_def intro!: font_setter_disciplined)
next
  case (AssignFont v)
  then show ?thesis
    using assms by (auto simp add: set_font_def Let_def intro!: font_setter_disciplined)
next
  case (AssignFontSize v)
  then show ?thesis
    using assms by (auto simp add: set_fontSize_def Let_def intro!: font_setter_disciplined)
next
  case (AssignFontWeight v)
  then show ?thesis
    using assms by (auto simp add: set_fontWeight_def Let_def intro!: font_setter_disciplined)
next
  case (AssignFontStyle v)
  then show ?thesis
    using assms by (auto simp add: set_fontStyle_def Let_def intro!: font_setter_disciplined)
next
  case (AssignFontVariant v)
  then show ?thesis
    using assms by (auto simp add: set_fontVariant_def Let_def intro!: font_setter_disciplined)
next
  case (AssignFill v)
  then show ?thesis using assms comparing_setters_cases(1)[of v s] by (auto intro!: same_or_marked)
next
  case (AssignAlign v)
  then show ?thesis using assms comparing_setters_cases(2)[of v s] by (auto intro!: same_or_marked)
next
  case (AssignResolution v)
  then show ?thesis using assms comparing_setters_cases(3)[of v s] by (auto intro!: same_or_marked)
next
  case (AssignTabs v)
  then show ?thesis using assms comparing_setters_cases(4)[of v s] by (auto intro!: same_or_marked)
next
  case (AssignBoundsAlignH v)
  then show ?thesis using assms comparing_setters_cases(5)[of v s] by (auto intro!: same_or_marked)
next
  case (AssignBoundsAlignV v)
  then show ?thesis using assms comparing_setters_cases(6)[of v s] by (auto intro!: same_or_marked)
next
  case (AssignStroke v)
  then show ?thesis using assms comparing_setters_cases(7)[of v s] by (auto intro!: same_or_marked)
next
  case (AssignStrokeThickness v)
  then show ?thesis using assms comparing_setters_cases(8)[of v s] by (auto intro!: same_or_marked)
next
  case (AssignWordWrap v)
  then show ?thesis using assms comparing_setters_cases(9)[of v s] by (auto intro!: same_or_marked)
next
  case (AssignWordWrapWidth v)
  then show ?thesis using assms comparing_setters_cases(10)[of v s] by (auto intro!: same_or_marked)
next
  case (AssignLineSpacing v)
  then show ?thesis using assms comparing_setters_cases(11)[of v s] by (auto intro!: same_or_marked)
next
  case (AssignShadowOffsetX v)
  then show ?thesis using assms comparing_setters_cases(12)[of v s] by (auto intro!: same_or_marked)
next
  case (AssignShadowOffsetY v)
  then show ?thesis using assms comparing_setters_cases(13)[of v s] by (auto intro!: same_or_marked)
next
  case (AssignShadowColor v)
  then show ?thesis using assms comparing_setters_cases(14)[of v s] by (auto intro!: same_or_marked)
next
  case (AssignShadowBlur v)
  then show ?thesis using assms comparing_setters_cases(15)[of v s] by (auto intro!: same_or_marked)
next
  case (AssignShadowStroke v)
  then show ?thesis using assms comparing_setters_cases(16)[of v s] by (auto intro!: same_or_marked)
next
  case (AssignShadowFill v)
  then show ?thesis using assms comparing_setters_cases(17)[of v s] by (auto intro!: same_or_marked)
qed

text \<open>
  Claim C3, as amended. For every public operation that returns:
  \<^item> the operations that rewrite the text, the style or a map of style runs unconditionally
    (\<open>setShadow\<close>, \<open>setStyle\<close>, \<open>clearColors\<close>, \<open>clearFontValues\<close>, the four \<open>add\<close>
    methods, \<open>setText\<close>, \<open>parseList\<close> of an array) leave the flag set;
  \<^item> whenever an operation changes the text, a field of the style, a map of style runs or
    the resolution, the flag is set afterwards (nothing is said here of a call of
    \<open>setTextBounds\<close> with a width below the word wrap width);
  \<^item> \<open>setTextBounds\<close> with any other arguments changes none of these and leaves the flag
    as it was: it applies the bounds at once, through \<open>updateTexture\<close>;
  \<^item> the font components count through the font string derived from them: after an
    assignment to a font property \<^verbatim>\<open>style.font\<close> is that string, so the flag is set
    when the string changed, and when it did not the assignment changed nothing but the
    cached components;
  \<^item> the flag is cleared only by the render methods and the getters of the bounds and
    the size, right after \<open>updateText\<close>.
\<close>

theorem dirty_flag_discipline:
  assumes "perform h op s = Inr s'"
  shows "(alwaysMarks op \<longrightarrow> dirty s')
       \<and> (\<not> clamps op s \<and> contentChanged s s' \<longrightarrow> dirty s')
       \<and> (isSetTextBounds op \<and> \<not> clamps op s \<longrightarrow> dirty s' = dirty s \<and> \<not> contentChanged s s')
       \<and> (isFontAssignment op \<longrightarrow>
             style_font (style s') = componentsToFont (priv_fontComponents s')
             \<and> (style_font (style s') = style_font (style s) \<longrightarrow>
                  s' = s\<lparr>priv_fontComponents := priv_fontComponents s'\<rparr>))
       \<and> (dirty s \<and> \<not> dirty s' \<longrightarrow> laysOut op \<and> s' = (updateText h s)\<lparr>dirty := False\<rparr>)"
  using perform_disciplined[OF assms] by (simp add: disciplined_def)

theorem dirty_flag_discipline_witness:
  "perform exampleHost (AddColor ''#ffff00'' 7) exampleText = Inr (addColor ''#ffff00'' 7 exampleText)
   \<and> alwaysMarks (AddColor ''#ffff00'' 7)
   \<and> contentChanged exampleText (addColor ''#ffff00'' 7 exampleText)
   \<and> \<not> dirty exampleText
   \<and> dirty (addColor ''#ffff00'' 7 exampleText)
   \<and> isSetTextBounds (SetTextBounds (Some (0, 0, 800, 600)))
   \<and> \<not> clamps (SetTextBounds (Some (0, 0, 800, 600))) (addColor ''#ffff00'' 7 exampleText)
   \<and> dirty (setTextBounds (Some (0, 0, 800, 600)) (addColor ''#ffff00'' 7 exampleText))
   \<and> \<not> contentChanged (addColor ''#ffff00'' 7 exampleText)
         (setTextBounds (Some (0, 0, 800, 600)) (addColor ''#ffff00'' 7 exampleText))
   \<and> isFontAssignment (AssignFontWeight (Some ''bold''))
   \<and> style_font (style (set_fontWeight (Some ''bold'') exampleText)) = style_font (style exampleText)
   \<and> set_fontWeight (Some ''bold'') exampleText = exampleText
   \<and> laysOut RenderWebGL
   \<and> renderWebGL exampleHost (addColor ''#ffff00'' 7 exampleText)
       = (updateText exampleHost (addColor ''#ffff00'' 7 exampleText))\<lparr>dirty := False\<rparr>"
proof -
  let ?a = "addColor ''#ffff00'' 7 exampleText"
  let ?b = "SetTextBounds (Some (0, 0, 800, 600))"
  have p1: "perform exampleHost (AddColor ''#ffff00'' 7) exampleText = Inr ?a" by simp
  have p2: "perform exampleHost ?b ?a = Inr (setTextBounds (Some (0, 0, 800, 600)) ?a)" by simp
  have p3: "perform exampleHost RenderWebGL ?a = Inr (renderWebGL exampleHost ?a)" by simp
  have p4: "perform exampleHost (AssignFontWeight (Some ''bold'')) exampleText
      = Inr (set_fontWeight (Some ''bold'') exampleText)" by simp
  have c: "contentChanged exampleText ?a"
    by (simp add: contentChanged_def addColor_def sparseSet_def exampleText_def)
  have d: "\<not> dirty exampleText" by (simp add: exampleText_def)
  have n: "\<not> clamps ?b ?a"
    by (simp add: addColor_def exampleText_def exampleStyle_def)
  have d1: "dirty ?a"
    using dirty_flag_discipline[OF p1] by simp
  have d2: "dirty (setTextBounds (Some (0, 0, 800, 600)) ?a)
      \<and> \<not> contentChanged ?a (setTextBounds (Some (0, 0, 800, 600)) ?a)"
    using dirty_flag_discipline[OF p2] d1 n by simp
  have d3: "\<not> dirty (renderWebGL exampleHost ?a)"
    using d1 by (simp add: renderWebGL_def)
  have r: "renderWebGL exampleHost ?a = (updateText exampleHost ?a)\<lparr>dirty := False\<rparr>"
    using dirty_flag_discipline[OF p3] d1 d3 by simp
  have f: "style_font (style (set_fontWeight (Some ''bold'') exampleText))
      = style_font (style exampleText)"
    by (simp add: set_fontWeight_def updateFont_def componentsToFont_def pushUnless_def
        pushIf_def orString_def Let_def exampleText_def exampleStyle_def)
  have "set_fontWeight (Some ''bold'') exampleText
      = exampleText\<lparr>priv_fontComponents :=
          priv_fontComponents (set_fontWeight (Some ''bold'') exampleText)\<rparr>"
    using dirty_flag_discipline[OF p4] f by simp
  then have g: "set_fontWeight (Some ''bold'') exampleText = exampleText"
    by (simp add: set_fontWeight_def updateFont_def componentsToFont_def pushUnless_def
        pushIf_def orString_def Let_def exampleText_def exampleStyle_def)
  show ?thesis
    using p1 c d d1 d2 n r f g by simp
qed

text \<open>
  Claim C3 as stated has the flag set after \<open>setTextBounds\<close>. On a clean object, with
  bounds wider than the word wrap width, the call sets the bounds, leaves the style as it
  was, and the flag stays clear.
\<close>

theorem setTextBounds_leaves_flag_clear:
  "\<not> dirty exampleText
   \<and> textBounds exampleText = None
   \<and> textBounds (setTextBounds (Some (0, 0, 800, 600)) exampleText)
       = Some \<lparr>rect_x = 0, rect_y = 0, rect_width = 800, rect_height = 600\<rparr>
   \<and> wordWrapWidth (style exampleText) = 100
   \<and> style (setTextBounds (Some (0, 0, 800, 600)) exampleText) = style exampleText
   \<and> \<not> dirty (setTextBounds (Some (0, 0, 800, 600)) exampleText)"
  by (simp add: setTextBounds_def updateTexture_def Let_def exampleText_def exampleStyle_def)

text \<open>
  The case the statement above leaves out. With a width below the word wrap width
  \<open>setTextBounds\<close> lowers \<^verbatim>\<open>style.wordWrapWidth\<close> and leaves the flag as it was, where
  the setter of \<^verbatim>\<open>wordWrapWidth\<close> sets the flag for the same change; the render that
  follows lays nothing out.
\<close>

lemma setTextBounds_clamps_unmarked:
  "wordWrapWidth (style exampleText) = 100
   \<and> wordWrapWidth (style (setTextBounds (Some (0, 0, 50, 600)) exampleText)) = 50
   \<and> \<not> dirty (setTextBounds (Some (0, 0, 50, 600)) exampleText)
   \<and> wordWrapWidth (style (set_wordWrapWidth 50 exampleText)) = 50
   \<and> dirty (set_wordWrapWidth 50 exampleText)
   \<and> renderWebGL exampleHost (setTextBounds (Some (0, 0, 50, 600)) exampleText)
       = setTextBounds (Some (0, 0, 50, 600)) exampleText"
  by (simp add: setTextBounds_def updateTexture_def set_wordWrapWidth_def renderWebGL_def Let_def
      exampleText_def exampleStyle_def)

text \<open>
  An assignment to a font property that changes the components and not the font string
  derived from them: the size goes from \<^verbatim>\<open>medium\<close> to \<^verbatim>\<open>serif\<close> and the family from
  \<^verbatim>\<open>serif\<close> to the empty string, the string stays \<^verbatim>\<open>bold serif\<close>, and nothing else
  changes, the flag included. The layout reads the string only.
\<close>

lemma cssFont_components_only:
  "\<not> dirty serifText
   \<and> style_font (style serifText) = componentsToFont (priv_fontComponents serifText)
   \<and> set_cssFont (Some ''bold serif'') serifText =
       serifText\<lparr>priv_fontComponents :=
         \<lparr> font = ''bold serif'', fontStyle = Some ''normal'', fontVariant = Some ''normal'',
           fontWeight = Some ''bold'', fontSize = Some ''serif'', fontFamily = Some '''' \<rparr>\<rparr>"
proof -
  have p: "fontToComponents ''bold serif'' =
      \<lparr> font = ''bold serif'', fontStyle = Some ''normal'', fontVariant = Some ''normal'',
        fontWeight = Some ''bold'', fontSize = Some ''serif'', fontFamily = Some '''' \<rparr>"
    by code_simp
  show ?thesis
    by (simp add: set_cssFont_def updateFont_def orString_def p componentsToFont_def
        pushUnless_def pushIf_def Let_def serifText_def exampleText_def exampleStyle_def)
qed

subsection \<open>Word wrap: spaces are kept (C6)\<close>

lemma splitOn_cur:
  "splitOn sep cur b = (rev cur @ hd (splitOn sep [] b)) # tl (splitOn sep [] b)"
proof (induction b arbitrary: cur)
  case Nil
  show ?case by simp
next
  case (Cons c cs)
  show ?case
  proof (cases "c = sep")
    case True
    then show ?thesis by simp
  next
    case False
    then show ?thesis
      using Cons.IH[of "c # cur"] Cons.IH[of "[c]"] by simp
  qed
qed

lemma splitOn_append:
  "splitOn sep cur (a @ b) =
     butlast (splitOn sep cur a) @ [last (splitOn sep cur a) @ hd (splitOn sep [] b)]
       @ tl (splitOn sep [] b)"
proof (induction a arbitrary: cur)
  case Nil
  show ?case using splitOn_cur[of sep cur b] by simp
next
  case (Cons c cs)
  show ?case
  proof (cases "c = sep")
    case True
    then show ?thesis using Cons.IH[of "[]"] by (simp add: splitOn_nonempty)
  next
    case False
    then show ?thesis using Cons.IH[of "c # cur"] by simp
  qed
qed

lemma split_append:
  "split sep (a @ b) =
     butlast (split sep a) @ [last (split sep a) @ hd (split sep b)] @ tl (split sep b)"
  by (simp add: split_def splitOn_append)

lemma splitOn_clean: "sep \<notin> set b \<Longrightarrow> splitOn sep cur b = [rev cur @ b]"
  by (induction b arbitrary: cur) auto

lemma split_clean: "sep \<notin> set b \<Longrightarrow> split sep b = [b]"
  by (simp add: split_def splitOn_clean)

lemma split_append_clean:
  "sep \<notin> set b \<Longrightarrow> split sep (a @ b) = butlast (split sep a) @ [last (split sep a) @ b]"
  by (simp add: split_append split_clean)

lemma split_append_sep: "split sep (a @ sep # b) = split sep a @ split sep b"
proof -
  have "split sep (sep # b) = [] # split sep b"
    by (simp add: split_def)
  then show ?thesis
    using split_append[of sep a "sep # b"] split_nonempty[of sep a]
    by simp
qed

lemma splitOn_pieces_clean:
  "sep \<notin> set cur \<Longrightarrow> w \<in> set (splitOn sep cur s) \<Longrightarrow> sep \<notin> set w"
proof (induction s arbitrary: cur)
  case Nil
  then show ?case by auto
next
  case (Cons c cs)
  show ?case
    using Cons.IH[of "[]"] Cons.IH[of "c # cur"] Cons.prems
    by (auto split: if_splits)
qed

lemma split_pieces_clean: "w \<in> set (split sep s) \<Longrightarrow> sep \<notin> set w"
  using splitOn_pieces_clean[of sep "[]" w s] by (simp add: split_def)

lemma splitOn_pieces_subset:
  "w \<in> set (splitOn sep cur s) \<Longrightarrow> set w \<subseteq> set cur \<union> set s"
proof (induction s arbitrary: cur)
  case Nil
  then show ?case by auto
next
  case (Cons c cs)
  show ?case
    using Cons.IH[of "[]"] Cons.IH[of "c # cur"] Cons.prems
    by (auto split: if_splits)
qed

lemma split_pieces_subset: "w \<in> set (split sep s) \<Longrightarrow> set w \<subseteq> set s"
  using splitOn_pieces_subset[of w sep "[]" s] by (simp add: split_def)

lemma concat_splitOn:
  "concat (map (\<lambda>w. w @ [sep]) (splitOn sep cur s)) = rev cur @ s @ [sep]"
  by (induction s arbitrary: cur) auto

lemma concat_split: "concat (map (\<lambda>w. w @ [sep]) (split sep s)) = s @ [sep]"
  by (simp add: split_def concat_splitOn)

lemma wrapWords_unbroken:
  "\<forall>x \<in> set ws. CHR 0x0A \<notin> set x \<Longrightarrow>
   filter (\<lambda>c. c \<noteq> CHR 0x0A) (wrapWords fl m w ws j sl r)
     = filter (\<lambda>c. c \<noteq> CHR 0x0A) r @ concat (map (\<lambda>x. x @ '' '') ws)"
proof (induction ws arbitrary: j sl r)
  case Nil
  show ?case by simp
next
  case (Cons x xs)
  have x: "filter (\<lambda>c. c \<noteq> CHR 0x0A) x = x"
    using Cons.prems by (auto simp add: filter_id_conv)
  have xs: "\<forall>x \<in> set xs. CHR 0x0A \<notin> set x"
    using Cons.prems by simp
  show ?case
    by (simp add: Let_def Cons.IH[OF xs] x)
qed

lemma wrapLines_unbroken:
  "\<forall>l \<in> set ls. CHR 0x0A \<notin> set l \<Longrightarrow>
   filter (\<lambda>c. c \<noteq> CHR 0x0A) (wrapLines fl m w ls r)
     = filter (\<lambda>c. c \<noteq> CHR 0x0A) r @ concat (map (\<lambda>l. l @ '' '') ls)"
proof (induction ls arbitrary: r)
  case Nil
  show ?case by simp
next
  case (Cons l ls)
  have ws: "\<forall>x \<in> set (split (CHR '' '') l). CHR 0x0A \<notin> set x"
    using Cons.prems split_pieces_subset[of _ "CHR '' ''" l] by auto
  have ls: "\<forall>l \<in> set ls. CHR 0x0A \<notin> set l"
    using Cons.prems by simp
  show ?case
    using concat_split[of "CHR '' ''" l]
    by (simp add: Let_def Cons.IH[OF ls] wrapWords_unbroken[OF ws])
qed

text \<open>
  Claim C6, as amended. The word wrap keeps every space of its input: a run of several
  spaces splits into empty words, and each word, empty or not, is written back followed
  by a space. Without the line feeds, the output is the input with one space added at the
  end of each line, for every measure, every budget and every rounding of the arithmetic.
\<close>

theorem wordWrap_keeps_every_space:
  "filter (\<lambda>c. c \<noteq> CHR 0x0A) (runWordWrap fl m w txt)
     = concat (map (\<lambda>line. line @ '' '') (split (CHR 0x0A) txt))"
proof -
  have "\<forall>l \<in> set (split (CHR 0x0A) txt). CHR 0x0A \<notin> set l"
    using split_pieces_clean by blast
  then show ?thesis
    by (simp add: runWordWrap_def wrapLines_unbroken)
qed

lemma fixedPoint_of_int: "fixedPoint (real_of_int n) = real_of_int n"
proof -
  have "real_of_int n * 1024 = real_of_int (n * 1024)" by simp
  then have "round (real_of_int n * 1024) = n * 1024" by (simp only: round_of_int)
  then show ?thesis by (simp add: fixedPoint_def)
qed

lemma fixedPoint_numeral [simp]:
  "fixedPoint (numeral k) = numeral k" "fixedPoint (- numeral k) = - numeral k"
  "fixedPoint 0 = 0" "fixedPoint 1 = 1"
  using fixedPoint_of_int[of "numeral k"] fixedPoint_of_int[of "- numeral k"]
    fixedPoint_of_int[of 0] fixedPoint_of_int[of 1]
  by simp_all

text \<open>
  Claim C6 as stated has runs of spaces come out as single spaces; the two spaces of
  this input come out as two.
\<close>

theorem wordWrap_double_space_kept:
  "runWordWrap fixedPoint (\<lambda>t. 10 * real (length t)) 100 ''a  b'' = ''a  b ''"
  by (simp add: runWordWrap_def split_def Let_def)

subsection \<open>Word wrap: lines and words (C2)\<close>

lemma wrapInv_fits:
  assumes "wrapInv m w j sl r" and "j > 0"
  shows "\<forall>l \<in> set (split (CHR 0x0A) r). lineFits m w l"
proof (cases "split (CHR 0x0A) r" rule: rev_cases)
  case Nil
  then show ?thesis using split_nonempty[of "CHR 0x0A" r] by simp
next
  case (snoc ys y)
  have "lineFits m w y"
    using assms snoc by (auto simp add: wrapInv_def lineFits_def)
  moreover have "\<forall>l \<in> set ys. lineFits m w l"
    using assms snoc by (simp add: wrapInv_def)
  ultimately show ?thesis
    using snoc by simp
qed

lemma wrapInv_step:
  assumes sub: "\<And>a b. m (a @ b) \<le> m a + m b"
    and sp: "0 \<le> m '' ''"
    and inv: "wrapInv m w j sl r"
    and clean: "CHR 0x0A \<notin> set x" "CHR '' '' \<notin> set x"
  shows "m x + m '' '' > sl \<Longrightarrow>
           wrapInv m w (Suc j) (w - m x) ((if j > 0 then r @ [CHR 0x0A] else r) @ x @ '' '')"
    and "\<not> m x + m '' '' > sl \<Longrightarrow>
           (j = 0 \<longrightarrow> sl = w) \<Longrightarrow> wrapInv m w (Suc j) (sl - (m x + m '' '')) (r @ x @ '' '')"
proof -
  let ?ls = "split (CHR 0x0A) r"
  have ne: "?ls \<noteq> []" by (rule split_nonempty)
  have cl: "CHR 0x0A \<notin> set (x @ '' '')" using clean by simp
  have app: "split (CHR 0x0A) (r @ x @ '' '') = butlast ?ls @ [last ?ls @ x @ '' '']"
    using split_append_clean[OF cl, of r] by simp
  have brk: "split (CHR 0x0A) ((r @ [CHR 0x0A]) @ x @ '' '') = ?ls @ [x @ '' '']"
    using split_append_sep[of "CHR 0x0A" r "x @ '' ''"] split_clean[OF cl] by simp
  have bl: "butlast (x @ '' '') = x" by (simp add: butlast_append)
  {
    assume big: "m x + m '' '' > sl"
    show "wrapInv m w (Suc j) (w - m x) ((if j > 0 then r @ [CHR 0x0A] else r) @ x @ '' '')"
    proof (cases "j > 0")
      case True
      have "\<forall>l \<in> set ?ls. lineFits m w l" by (rule wrapInv_fits[OF inv True])
      then show ?thesis
        using True clean by (simp add: wrapInv_def brk bl del: append_assoc)
    next
      case False
      then have e: "last ?ls = []" using inv by (simp add: wrapInv_def)
      show ?thesis
        using False inv clean by (simp add: wrapInv_def app e bl)
    qed
  }
  {
    assume fit: "\<not> m x + m '' '' > sl" and first: "j = 0 \<longrightarrow> sl = w"
    show "wrapInv m w (Suc j) (sl - (m x + m '' '')) (r @ x @ '' '')"
    proof (cases "j > 0")
      case True
      let ?cur = "last ?ls"
      have c: "?cur \<noteq> []" "last ?cur = CHR '' ''" "m (butlast ?cur) \<le> w - sl"
        using inv True by (simp_all add: wrapInv_def)
      have "?cur = butlast ?cur @ '' ''"
        using c(1,2) by (metis append_butlast_last_id)
      then have mc: "m ?cur \<le> m (butlast ?cur) + m '' ''"
        using sub[of "butlast ?cur" "'' ''"] by simp
      have bl2: "butlast (?cur @ x @ '' '') = ?cur @ x"
        by (simp add: butlast_append)
      have "m (?cur @ x) \<le> w - (sl - (m x + m '' ''))"
        using sub[of ?cur x] mc c(3) by simp
      then show ?thesis
        using True inv fit by (simp add: wrapInv_def app bl2)
    next
      case False
      then have e: "last ?ls = []" using inv by (simp add: wrapInv_def)
      show ?thesis
        using False inv fit first sp by (simp add: wrapInv_def app e bl)
    qed
  }
qed

lemma wrapWords_inv:
  assumes sub: "\<And>a b. m (a @ b) \<le> m a + m b"
    and sp: "0 \<le> m '' ''"
  shows "wrapInv m w j sl r \<Longrightarrow> (j = 0 \<longrightarrow> sl = w) \<Longrightarrow>
         \<forall>x \<in> set ws. CHR 0x0A \<notin> set x \<and> CHR '' '' \<notin> set x \<Longrightarrow>
         \<exists>sl'. wrapInv m w (j + length ws) sl' (wrapWords (\<lambda>x. x) m w ws j sl r)"
proof (induction ws arbitrary: j sl r)
  case Nil
  then show ?case by auto
next
  case (Cons x xs)
  have cx: "CHR 0x0A \<notin> set x" "CHR '' '' \<notin> set x" using Cons.prems(3) by simp_all
  have cxs: "\<forall>x \<in> set xs. CHR 0x0A \<notin> set x \<and> CHR '' '' \<notin> set x" using Cons.prems(3) by simp
  show ?case
  proof (cases "m x + m '' '' > sl")
    case True
    have i: "wrapInv m w (Suc j) (w - m x) ((if j > 0 then r @ [CHR 0x0A] else r) @ x @ '' '')"
      by (rule wrapInv_step(1)[OF sub sp Cons.prems(1) cx True])
    show ?thesis
      using Cons.IH[OF i _ cxs] True by (simp add: Let_def)
  next
    case False
    have i: "wrapInv m w (Suc j) (sl - (m x + m '' '')) (r @ x @ '' '')"
      by (rule wrapInv_step(2)[OF sub sp Cons.prems(1) cx False Cons.prems(2)])
    show ?thesis
      using Cons.IH[OF i _ cxs] False by (simp add: Let_def)
  qed
qed

lemma wrapLines_fits:
  assumes sub: "\<And>a b. m (a @ b) \<le> m a + m b"
    and sp: "0 \<le> m '' ''"
  shows "ls \<noteq> [] \<Longrightarrow> wrapInv m w 0 w r \<Longrightarrow> \<forall>l \<in> set ls. CHR 0x0A \<notin> set l \<Longrightarrow>
         \<forall>l \<in> set (split (CHR 0x0A) (wrapLines (\<lambda>x. x) m w ls r)). lineFits m w l"
proof (induction ls arbitrary: r)
  case Nil
  then show ?case by simp
next
  case (Cons l ls)
  let ?ws = "split (CHR '' '') l"
  let ?r1 = "wrapWords (\<lambda>x. x) m w ?ws 0 w r"
  have cw: "\<forall>x \<in> set ?ws. CHR 0x0A \<notin> set x \<and> CHR '' '' \<notin> set x"
    using Cons.prems(3) split_pieces_subset[of _ "CHR '' ''" l] split_pieces_clean[of _ "CHR '' ''" l]
    by auto
  obtain sl' where i: "wrapInv m w (0 + length ?ws) sl' ?r1"
    using wrapWords_inv[OF sub sp Cons.prems(2) _ cw] by blast
  have pos: "0 + length ?ws > 0" using split_nonempty[of "CHR '' ''" l] by simp
  have f: "\<forall>l \<in> set (split (CHR 0x0A) ?r1). lineFits m w l"
    by (rule wrapInv_fits[OF i pos])
  show ?case
  proof (cases "ls = []")
    case True
    then show ?thesis using f by (simp add: Let_def)
  next
    case False
    have s: "split (CHR 0x0A) (?r1 @ [CHR 0x0A]) = split (CHR 0x0A) ?r1 @ [[]]"
      using split_append_sep[of "CHR 0x0A" ?r1 "[]"] by (simp add: split_def)
    have i2: "wrapInv m w 0 w (?r1 @ [CHR 0x0A])"
      using f by (simp add: wrapInv_def s)
    have c: "\<forall>l \<in> set ls. CHR 0x0A \<notin> set l" using Cons.prems(3) by simp
    show ?thesis
      using Cons.IH[OF False i2 c] False by (simp add: Let_def)
  qed
qed

lemma wrapWords_exact:
  "exactWords fl m w ws sl \<Longrightarrow> wrapWords fl m w ws j sl r = wrapWords (\<lambda>x. x) m w ws j sl r"
proof (induction ws arbitrary: j sl r)
  case Nil
  show ?case by simp
next
  case (Cons x xs)
  have e: "fl (m x + m '' '') = m x + m '' ''"
    using Cons.prems by (simp add: Let_def)
  show ?case
  proof (cases "m x + m '' '' > sl")
    case True
    then have "fl (w - m x) = w - m x" and "exactWords fl m w xs (w - m x)"
      using Cons.prems by (simp_all add: Let_def)
    then show ?thesis
      using True e Cons.IH[of "w - m x"] by (simp add: Let_def)
  next
    case False
    then have "fl (sl - (m x + m '' '')) = sl - (m x + m '' '')"
      and "exactWords fl m w xs (sl - (m x + m '' ''))"
      using Cons.prems by (simp_all add: Let_def)
    then show ?thesis
      using False e Cons.IH[of "sl - (m x + m '' '')"] by (simp add: Let_def)
  qed
qed

lemma wrapLines_exact:
  "list_all (\<lambda>line. exactWords fl m w (split (CHR '' '') line) w) ls \<Longrightarrow>
   wrapLines fl m w ls r = wrapLines (\<lambda>x. x) m w ls r"
  by (induction ls arbitrary: r) (simp_all add: Let_def wrapWords_exact)

lemma runWordWrap_exact:
  "exactRun fl m w txt \<Longrightarrow> runWordWrap fl m w txt = runWordWrap (\<lambda>x. x) m w txt"
  by (simp add: runWordWrap_def exactRun_def wrapLines_exact)

lemma runWordWrap_fits:
  assumes sub: "\<And>a b. m (a @ b) \<le> m a + m b"
    and sp: "0 \<le> m '' ''"
    and ex: "exactRun fl m w txt"
  shows "\<forall>l \<in> set (split (CHR 0x0A) (runWordWrap fl m w txt)). lineFits m w l"
proof -
  have i: "wrapInv m w 0 w []" by (simp add: wrapInv_def split_def)
  have c: "\<forall>l \<in> set (split (CHR 0x0A) txt). CHR 0x0A \<notin> set l"
    using split_pieces_clean by blast
  have "\<forall>l \<in> set (split (CHR 0x0A) (runWordWrap (\<lambda>x. x) m w txt)). lineFits m w l"
    unfolding runWordWrap_def
    by (rule wrapLines_fits[OF sub sp split_nonempty i c])
  then show ?thesis
    by (simp only: runWordWrap_exact[OF ex])
qed

lemma wordsOf_alt: "wordsOf s = concat (map lineWords (split (CHR 0x0A) s))"
  by (simp add: wordsOf_def lineWords_def[abs_def])

lemma lineWords_append_space: "lineWords (a @ CHR '' '' # b) = lineWords a @ lineWords b"
  by (simp add: lineWords_def split_append_sep)

lemma wordsOf_append_newline: "wordsOf (a @ CHR 0x0A # b) = wordsOf a @ wordsOf b"
  by (simp add: wordsOf_alt split_append_sep)

lemma wordsOf_append_space: "wordsOf (a @ CHR '' '' # b) = wordsOf a @ wordsOf b"
proof -
  let ?la = "split (CHR 0x0A) a" and ?lb = "split (CHR 0x0A) (CHR '' '' # b)" and ?lb' = "split (CHR 0x0A) b"
  have b: "?lb = (CHR '' '' # hd ?lb') # tl ?lb'"
    using splitOn_cur[of "CHR 0x0A" "'' ''" b] by (simp add: split_def)
  have s: "split (CHR 0x0A) (a @ CHR '' '' # b) =
      butlast ?la @ [last ?la @ CHR '' '' # hd ?lb'] @ tl ?lb'"
    using split_append[of "CHR 0x0A" a "CHR '' '' # b"] b by simp
  have ea: "?la = butlast ?la @ [last ?la]"
    using split_nonempty[of "CHR 0x0A" a] by simp
  have eb: "?lb' = hd ?lb' # tl ?lb'"
    using split_nonempty[of "CHR 0x0A" b] by simp
  have wa: "wordsOf a = concat (map lineWords (butlast ?la)) @ lineWords (last ?la)"
    by (subst wordsOf_alt, subst ea) simp
  have wb: "wordsOf b = lineWords (hd ?lb') @ concat (map lineWords (tl ?lb'))"
    by (subst wordsOf_alt, subst eb) simp
  show ?thesis
    by (simp add: wordsOf_alt[of "a @ CHR '' '' # b"] s wa wb lineWords_append_space)
qed

lemma wordsOf_append_separator:
  "isSeparator c \<Longrightarrow> wordsOf (a @ c # b) = wordsOf a @ wordsOf b"
  using wordsOf_append_space wordsOf_append_newline by (auto simp add: isSeparator_def)

lemma wordsOf_Nil: "wordsOf [] = []"
  by (simp add: wordsOf_def split_def)

lemma wordsOf_word:
  "CHR 0x0A \<notin> set x \<Longrightarrow> CHR '' '' \<notin> set x \<Longrightarrow> wordsOf x = (if x = [] then [] else [x])"
  by (simp add: wordsOf_def split_clean)

lemma wordsOf_sealed_append:
  assumes "sealed r"
  shows "wordsOf (r @ b) = wordsOf r @ wordsOf b"
proof (cases r rule: rev_cases)
  case Nil
  then show ?thesis by (simp add: wordsOf_Nil)
next
  case (snoc ys y)
  then have y: "isSeparator y" using assms by (simp add: sealed_def)
  have "wordsOf r = wordsOf ys"
    using wordsOf_append_separator[OF y, of ys "[]"] snoc by (simp add: wordsOf_Nil)
  then show ?thesis
    using wordsOf_append_separator[OF y, of ys b] snoc by simp
qed

lemma wordsOf_emit:
  assumes "sealed r" and "CHR 0x0A \<notin> set x" and "CHR '' '' \<notin> set x"
  shows "wordsOf (r @ x @ '' '') = wordsOf r @ (if x = [] then [] else [x])"
    and "sealed (r @ x @ '' '')"
    and "wordsOf (r @ [CHR 0x0A]) = wordsOf r" and "sealed (r @ [CHR 0x0A])"
proof -
  have "wordsOf (x @ '' '') = wordsOf x"
    using wordsOf_append_space[of x "[]"] by (simp add: wordsOf_Nil)
  then show "wordsOf (r @ x @ '' '') = wordsOf r @ (if x = [] then [] else [x])"
    using wordsOf_sealed_append[OF assms(1), of "x @ '' ''"] wordsOf_word[OF assms(2,3)] by simp
  show "sealed (r @ x @ '' '')" by (simp add: sealed_def isSeparator_def)
  have "wordsOf [CHR 0x0A] = []"
    using wordsOf_append_newline[of "[]" "[]"] by (simp add: wordsOf_Nil)
  then show "wordsOf (r @ [CHR 0x0A]) = wordsOf r"
    using wordsOf_sealed_append[OF assms(1), of "[CHR 0x0A]"] by simp
  show "sealed (r @ [CHR 0x0A])" by (simp add: sealed_def isSeparator_def)
qed

lemma wrapWords_words:
  "sealed r \<Longrightarrow> \<forall>x \<in> set ws. CHR 0x0A \<notin> set x \<and> CHR '' '' \<notin> set x \<Longrightarrow>
   wordsOf (wrapWords fl m w ws j sl r) = wordsOf r @ filter (\<lambda>x. x \<noteq> []) ws
   \<and> sealed (wrapWords fl m w ws j sl r)"
proof (induction ws arbitrary: j sl r)
  case Nil
  then show ?case by simp
next
  case (Cons x xs)
  have cx: "CHR 0x0A \<notin> set x" "CHR '' '' \<notin> set x" using Cons.prems(2) by simp_all
  have cxs: "\<forall>x \<in> set xs. CHR 0x0A \<notin> set x \<and> CHR '' '' \<notin> set x" using Cons.prems(2) by simp
  have c1: "sealed (r @ [CHR 0x0A])" and w1: "wordsOf (r @ [CHR 0x0A]) = wordsOf r"
    using wordsOf_emit(3,4)[OF Cons.prems(1) cx] by simp_all
  have a: "sealed (r @ x @ '' '')" "wordsOf (r @ x @ '' '') = wordsOf r @ (if x = [] then [] else [x])"
    using wordsOf_emit(1,2)[OF Cons.prems(1) cx] by simp_all
  have b: "sealed ((r @ [CHR 0x0A]) @ x @ '' '')"
    "wordsOf ((r @ [CHR 0x0A]) @ x @ '' '') = wordsOf r @ (if x = [] then [] else [x])"
    using wordsOf_emit(1,2)[OF c1 cx] w1 by simp_all
  obtain r' sl' where e: "wrapWords fl m w (x # xs) j sl r = wrapWords fl m w xs (Suc j) sl' r'"
    and r': "r' = r @ x @ '' '' \<or> r' = (r @ [CHR 0x0A]) @ x @ '' ''"
    by (cases "fl (m x + m '' '') > sl"; cases "j > 0") (simp_all add: Let_def)
  have c: "sealed r'" and w: "wordsOf r' = wordsOf r @ (if x = [] then [] else [x])"
    using r' a b by auto
  show ?case
    unfolding e using Cons.IH[OF c cxs, of "Suc j" sl'] w by simp
qed

lemma wrapLines_words:
  "sealed r \<Longrightarrow> \<forall>l \<in> set ls. CHR 0x0A \<notin> set l \<Longrightarrow>
   wordsOf (wrapLines fl m w ls r) = wordsOf r @ concat (map lineWords ls)"
proof (induction ls arbitrary: r)
  case Nil
  then show ?case by simp
next
  case (Cons l ls)
  let ?ws = "split (CHR '' '') l"
  let ?r1 = "wrapWords fl m w ?ws 0 w r"
  have cw: "\<forall>x \<in> set ?ws. CHR 0x0A \<notin> set x \<and> CHR '' '' \<notin> set x"
    using Cons.prems(2) split_pieces_subset[of _ "CHR '' ''" l] split_pieces_clean[of _ "CHR '' ''" l]
    by auto
  have r1: "wordsOf ?r1 = wordsOf r @ lineWords l" "sealed ?r1"
    using wrapWords_words[OF Cons.prems(1) cw, of fl m w 0 w] by (simp_all add: lineWords_def)
  have c: "\<forall>l \<in> set ls. CHR 0x0A \<notin> set l" using Cons.prems(2) by simp
  have n: "sealed (?r1 @ [CHR 0x0A])" "wordsOf (?r1 @ [CHR 0x0A]) = wordsOf ?r1"
    using wordsOf_emit(3,4)[OF r1(2), of "[]"] by simp_all
  show ?case
    using Cons.IH[OF r1(2) c] Cons.IH[OF n(1) c] r1(1) n(2)
    by (simp add: Let_def)
qed

lemma runWordWrap_words: "wordsOf (runWordWrap fl m w txt) = wordsOf txt"
proof -
  have c: "\<forall>l \<in> set (split (CHR 0x0A) txt). CHR 0x0A \<notin> set l"
    using split_pieces_clean by blast
  have "sealed []" by (simp add: sealed_def)
  then show ?thesis
    using wrapLines_words[OF _ c, of "[]" fl m w]
    by (simp add: runWordWrap_def wordsOf_alt[of "txt"] wordsOf_Nil)
qed

text \<open>
  Claim C2, as amended. Let the measure be subadditive (a string measures at most the sum
  of the widths of its parts, as text with kerning does) with a space of non-negative
  width, and let the run round nothing: the sums and differences of widths that the loop
  computes are doubles already. Then every line the word wrap emits ends with a space and,
  without that space, measures at most the budget or is a single word. And for every
  measure, every budget and every rounding, the words of the output are the words of the
  input, in the same order.
\<close>

theorem wordWrap_lines_fit:
  "((\<forall>a b. m (a @ b) \<le> m a + m b) \<and> 0 \<le> m '' '' \<and> exactRun fl m w txt \<longrightarrow>
      (\<forall>l \<in> set (split (CHR 0x0A) (runWordWrap fl m w txt)). lineFits m w l))
   \<and> wordsOf (runWordWrap fl m w txt) = wordsOf txt"
  using runWordWrap_fits[of m fl w "txt"] runWordWrap_words[of fl m w "txt"] by blast

lemma monospace_subadditive: "monospace (a @ b) \<le> monospace a + monospace b"
  by (simp add: monospace_def algebra_simps)

theorem wordWrap_lines_fit_witness:
  "(\<forall>a b. monospace (a @ b) \<le> monospace a + monospace b) \<and> 0 \<le> monospace '' ''
   \<and> exactRun fixedPoint monospace 100 ''aaaaa bbbbbbbbbb cc''
   \<and> runWordWrap fixedPoint monospace 100 ''aaaaa bbbbbbbbbb cc''
       = ''aaaaa '' @ [CHR 0x0A] @ ''bbbbbbbbbb '' @ [CHR 0x0A] @ ''cc ''
   \<and> lineFits monospace 100 ''aaaaa '' \<and> lineFits monospace 100 ''bbbbbbbbbb '' \<and> lineFits monospace 100 ''cc ''
   \<and> wordsOf (runWordWrap fixedPoint monospace 100 ''aaaaa bbbbbbbbbb cc'')
       = [''aaaaa'', ''bbbbbbbbbb'', ''cc'']"
proof -
  let ?t = "''aaaaa bbbbbbbbbb cc''"
  have a: "\<forall>a b. monospace (a @ b) \<le> monospace a + monospace b"
    by (simp add: monospace_subadditive)
  have b: "0 \<le> monospace '' ''" by (simp add: monospace_def)
  have e: "exactRun fixedPoint monospace 100 ?t"
    by (simp add: exactRun_def split_def Let_def monospace_def)
  have r: "runWordWrap fixedPoint monospace 100 ?t
      = ''aaaaa '' @ [CHR 0x0A] @ ''bbbbbbbbbb '' @ [CHR 0x0A] @ ''cc ''"
    by (simp add: runWordWrap_def split_def Let_def monospace_def)
  have s: "split (CHR 0x0A) (runWordWrap fixedPoint monospace 100 ?t)
      = [''aaaaa '', ''bbbbbbbbbb '', ''cc '']"
    by (simp add: runWordWrap_def split_def Let_def monospace_def)
  have w: "wordsOf ?t = [''aaaaa'', ''bbbbbbbbbb'', ''cc'']"
    by (simp add: wordsOf_def split_def)
  note t = wordWrap_lines_fit[of monospace fixedPoint 100 "?t"]
  have "\<forall>l \<in> set (split (CHR 0x0A) (runWordWrap fixedPoint monospace 100 ?t)). lineFits monospace 100 l"
    using conjunct1[OF t] a b e by blast
  then have f: "\<forall>l \<in> set [''aaaaa '', ''bbbbbbbbbb '', ''cc '']. lineFits monospace 100 l"
    unfolding s .
  have v: "wordsOf (runWordWrap fixedPoint monospace 100 ?t) = [''aaaaa'', ''bbbbbbbbbb'', ''cc'']"
    using conjunct2[OF t] unfolding w .
  show ?thesis
    using a b e r f v by simp
qed

text \<open>
  Claim C2 as stated bounds the measured width of the emitted line itself. Under a
  measure of ten pixels a character and a budget of 100, the second line emitted here
  measures 110, and its only word measures 100, which does not exceed the budget.
\<close>

theorem wordWrap_line_exceeds_budget:
  "runWordWrap fixedPoint monospace 100 ''aaaaa bbbbbbbbbb''
     = ''aaaaa '' @ [CHR 0x0A] @ ''bbbbbbbbbb ''
   \<and> split (CHR 0x0A) (runWordWrap fixedPoint monospace 100 ''aaaaa bbbbbbbbbb'')
     = [''aaaaa '', ''bbbbbbbbbb '']
   \<and> monospace ''bbbbbbbbbb '' > 100
   \<and> split (CHR '' '') ''bbbbbbbbbb '' = [''bbbbbbbbbb'', '''']
   \<and> \<not> monospace ''bbbbbbbbbb'' > 100"
  by (simp add: runWordWrap_def split_def Let_def monospace_def)

text \<open>
  The two hypotheses on the measure and the arithmetic are needed. Under a measure that is
  not subadditive a line of two words that were charged 2 each measures 9, over a budget
  of 5, in a run that rounds nothing.
\<close>

lemma bound_needs_subadditive:
  "0 \<le> widening '' '' \<and> exactRun fixedPoint widening 5 ''a b''
   \<and> \<not> widening (''a'' @ '' b'') \<le> widening ''a'' + widening '' b''
   \<and> runWordWrap fixedPoint widening 5 ''a b'' = ''a b ''
   \<and> widening ''a b'' = 9
   \<and> \<not> lineFits widening 5 ''a b ''"
  by (simp add: runWordWrap_def exactRun_def split_def Let_def widening_def lineFits_def)

text \<open>
  Under an arithmetic that rounds, here to whole numbers, every word of two fifths of a
  pixel is charged nothing, and a line of three words measures 6/5 over a budget of 1,
  the measure being additive.
\<close>

lemma bound_needs_exact:
  "(\<forall>a b. inkOnly (a @ b) \<le> inkOnly a + inkOnly b) \<and> 0 \<le> inkOnly '' ''
   \<and> \<not> exactRun toWhole inkOnly 1 ''a b c''
   \<and> runWordWrap toWhole inkOnly 1 ''a b c'' = ''a b c ''
   \<and> inkOnly ''a b c'' = 6 / 5
   \<and> \<not> lineFits inkOnly 1 ''a b c ''"
proof -
  have r: "round (2 / 5 :: real) = 0" by (simp add: round_def)
  have a: "\<forall>a b. inkOnly (a @ b) \<le> inkOnly a + inkOnly b"
    by (simp add: inkOnly_def algebra_simps)
  show ?thesis
    using a by (simp add: runWordWrap_def exactRun_def split_def Let_def inkOnly_def toWhole_def
        lineFits_def r)
qed

text \<open>
  A run rounds nothing when the budget and the widths of the space and of the words are
  whole multiples of a unit, from 0 to \<open>2 ^ 52\<close> times the unit, and the arithmetic is
  exact on the multiples of the unit up to \<open>2 ^ 53\<close>: for the doubles, when the unit is a
  power of two.
\<close>

lemma onGrid_multiple:
  assumes "onGrid u x"
  shows "\<exists>n::int. 0 \<le> n \<and> n \<le> 2 ^ 52 \<and> x = real_of_int n * u"
proof -
  have "0 \<le> \<lfloor>x / u\<rfloor> \<and> \<lfloor>x / u\<rfloor> \<le> 2 ^ 52 \<and> x = real_of_int \<lfloor>x / u\<rfloor> * u"
    using assms by (simp only: onGrid_def Let_def)
  then show ?thesis by (rule exI)
qed

lemma exactWords_on_grid:
  assumes u: "0 < u" and ex: "exactOn fl u" and gw: "onGrid u w" and gs: "onGrid u (m '' '')"
  shows "\<forall>x \<in> set ws. onGrid u (m x) \<Longrightarrow>
         \<exists>k::int. \<bar>k\<bar> \<le> 2 ^ 52 \<and> sl = real_of_int k * u \<Longrightarrow> exactWords fl m w ws sl"
proof (induction ws arbitrary: sl)
  case Nil
  show ?case by simp
next
  case (Cons x xs)
  obtain nx :: int where nx: "0 \<le> nx" "nx \<le> 2 ^ 52" "m x = real_of_int nx * u"
    using Cons.prems(1) onGrid_multiple[of u "m x"] by auto
  obtain ns :: int where ns: "0 \<le> ns" "ns \<le> 2 ^ 52" "m '' '' = real_of_int ns * u"
    using gs onGrid_multiple[of u "m '' ''"] by auto
  obtain nw :: int where nw: "0 \<le> nw" "nw \<le> 2 ^ 52" "w = real_of_int nw * u"
    using gw onGrid_multiple[of u w] by auto
  obtain k :: int where k: "\<bar>k\<bar> \<le> 2 ^ 52" "sl = real_of_int k * u"
    using Cons.prems(2) by blast
  have xs: "\<forall>x \<in> set xs. onGrid u (m x)" using Cons.prems(1) by simp
  have exact: "fl (real_of_int n * u) = real_of_int n * u" if "\<bar>n\<bar> \<le> 2 ^ 53" for n :: int
    using ex that by (simp add: exactOn_def)
  have s: "m x + m '' '' = real_of_int (nx + ns) * u"
    using nx ns by (simp add: algebra_simps)
  have e1: "fl (m x + m '' '') = m x + m '' ''"
    unfolding s by (rule exact) (use nx ns in simp)
  show ?case
  proof (cases "m x + m '' '' > sl")
    case True
    have d: "w - m x = real_of_int (nw - nx) * u"
      using nw nx by (simp add: algebra_simps)
    have e2: "fl (w - m x) = w - m x"
      unfolding d by (rule exact) (use nw nx in simp)
    have "\<exists>k::int. \<bar>k\<bar> \<le> 2 ^ 52 \<and> w - m x = real_of_int k * u"
      by (rule exI[of _ "nw - nx"]) (use d nw nx in simp)
    then have "exactWords fl m w xs (w - m x)"
      by (rule Cons.IH[OF xs])
    then show ?thesis
      using True e1 e2 by (simp add: Let_def)
  next
    case False
    then have "real_of_int (nx + ns) * u \<le> real_of_int k * u"
      using s k by simp
    then have le: "nx + ns \<le> k"
      using u by simp
    have d: "sl - (m x + m '' '') = real_of_int (k - (nx + ns)) * u"
      using s k by (simp add: algebra_simps)
    have r: "\<bar>k - (nx + ns)\<bar> \<le> 2 ^ 52"
      using le k nx ns by simp
    have e3: "fl (sl - (m x + m '' '')) = sl - (m x + m '' '')"
      unfolding d by (rule exact) (use r in simp)
    have "\<exists>j::int. \<bar>j\<bar> \<le> 2 ^ 52 \<and> sl - (m x + m '' '') = real_of_int j * u"
      by (rule exI[of _ "k - (nx + ns)"]) (use d r in simp)
    then have "exactWords fl m w xs (sl - (m x + m '' ''))"
      by (rule Cons.IH[OF xs])
    then show ?thesis
      using False e1 e3 by (simp add: Let_def)
  qed
qed

lemma exactRun_on_grid:
  assumes "0 < u" and "exactOn fl u" and "onGrid u w" and "onGrid u (m '' '')"
    and "\<forall>line \<in> set (split (CHR 0x0A) txt). \<forall>x \<in> set (split (CHR '' '') line). onGrid u (m x)"
  shows "exactRun fl m w txt"
proof -
  obtain nw :: int where nw: "0 \<le> nw" "nw \<le> 2 ^ 52" "w = real_of_int nw * u"
    using assms(3) onGrid_multiple[of u w] by auto
  have k: "\<exists>k::int. \<bar>k\<bar> \<le> 2 ^ 52 \<and> w = real_of_int k * u"
    by (rule exI[of _ nw]) (use nw in simp)
  have "exactWords fl m w (split (CHR '' '') line) w" if "line \<in> set (split (CHR 0x0A) txt)"
    for line
  proof (rule exactWords_on_grid[where u = u and m = m and fl = fl and w = w])
    show "0 < u" by (rule assms(1))
    show "exactOn fl u" by (rule assms(2))
    show "onGrid u w" by (rule assms(3))
    show "onGrid u (m '' '')" by (rule assms(4))
    show "\<forall>x \<in> set (split (CHR '' '') line). onGrid u (m x)"
      using assms(5) that by blast
    show "\<exists>k::int. \<bar>k\<bar> \<le> 2 ^ 52 \<and> w = real_of_int k * u"
      by (rule k)
  qed
  then show ?thesis
    by (simp add: exactRun_def list_all_iff)
qed

lemma exactOn_fixedPoint: "exactOn fixedPoint 1"
  by (simp add: exactOn_def fixedPoint_of_int)

subsection \<open>The font shorthand round trip (C1)\<close>

lemma orElse_simps [simp]: "orElse None b = b" "orElse (Some v) b = Some v"
  by (simp_all add: orElse_def)

lemma orElse_first: "a \<noteq> None \<Longrightarrow> orElse a b = a"
  by (cases a) simp_all

lemma star_stop: "r = [] \<or> \<not> P (hd r) \<Longrightarrow> star P k (p, r) = k (p, r)"
  by (cases r) auto

lemma star_greedy:
  "\<forall>c \<in> set a. P c \<Longrightarrow> b = [] \<or> \<not> P (hd b) \<Longrightarrow> k (rev a @ p, b) \<noteq> None \<Longrightarrow>
   star P k (p, a @ b) = k (rev a @ p, b)"
proof (induction a arbitrary: p)
  case Nil
  then show ?case by (simp add: star_stop)
next
  case (Cons c cs)
  have "star P k (c # p, cs @ b) = k (rev cs @ c # p, b)"
    using Cons.IH[of "c # p"] Cons.prems by simp
  then show ?case
    using Cons.prems by (simp add: orElse_first)
qed

lemma rep_stop: "\<not> P c \<Longrightarrow> 0 < lo \<Longrightarrow> rep P lo n k (p, c # r) = None"
  by (cases n) simp_all

lemma rep_greedy:
  "\<forall>c \<in> set u. P c \<Longrightarrow> lo \<le> length u \<Longrightarrow> length u \<le> n \<Longrightarrow> b = [] \<or> \<not> P (hd b) \<Longrightarrow>
   k (rev u @ p, b) \<noteq> None \<Longrightarrow> rep P lo n k (p, u @ b) = k (rev u @ p, b)"
proof (induction u arbitrary: p lo n)
  case Nil
  then show ?case
    by (cases n; cases b) auto
next
  case (Cons c cs)
  obtain n' where n: "n = Suc n'" using Cons.prems(3) by (cases n) auto
  have "rep P (lo - 1) n' k (c # p, cs @ b) = k (rev cs @ c # p, b)"
    using Cons.IH[of "lo - 1" n' "c # p"] Cons.prems n by simp
  then show ?case
    using Cons.prems n by (simp add: orElse_first)
qed

lemma lit_head: "w \<noteq> [] \<Longrightarrow> r = [] \<or> hd w \<noteq> hd r \<Longrightarrow> lit w k (q, r) = None"
  by (cases w; cases r) (auto simp add: lit_def)

lemma alt_lits_head:
  "\<forall>w \<in> set ws. w \<noteq> [] \<and> (r = [] \<or> hd w \<noteq> hd r) \<Longrightarrow> alt (map lit ws) k (q, r) = None"
  by (induction ws) (simp_all add: lit_head)

lemma alt_append: "alt (ms @ ns) k x = orElse (alt ms k x) (alt ns k x)"
  by (induction ms) (simp_all add: orElse_def split: option.splits)

lemma slot_taken:
  assumes "takes M q t rest" and "wordBoundary (q, t @ rest)"
    and "wordBoundary (rev t @ q, rest)" and "K (Some t) (rev t @ q, rest) = Some v"
  shows "wordb (optGroup M (\<lambda>m. wordb (K m))) (q, t @ rest) = Some v"
proof -
  let ?x = "(q, t @ rest)"
  let ?g = "\<lambda>y. K (Some (matched ?x y)) y"
  have m: "matched ?x (rev t @ q, rest) = t" by (simp add: matched_def)
  have c: "(\<lambda>y. wordb (K (Some (matched ?x y))) y) = edge ?g"
    by (rule ext) (simp add: wordb_def edge_def)
  have n: "?g (rev t @ q, rest) \<noteq> None"
    using assms(4) m by simp
  have "?g (rev t @ q, rest) \<noteq> None \<longrightarrow> M (edge ?g) ?x = ?g (rev t @ q, rest)"
    using assms(1) unfolding takes_def
    by (rule spec[where x = "\<lambda>y. K (Some (matched (q, t @ rest) y)) y"])
  then have "M (edge ?g) ?x = ?g (rev t @ q, rest)"
    using n by (rule mp)
  then have "capture M (\<lambda>s. wordb (K (Some s))) ?x = Some v"
    using assms(4) m by (simp add: capture_def c)
  then show ?thesis
    using assms(2) by (simp add: wordb_def optGroup_def)
qed

lemma slot_skipped:
  assumes "rejects M q r" and "wordBoundary (q, r)" and "K None (q, r) = Some v"
  shows "wordb (optGroup M (\<lambda>m. wordb (K m))) (q, r) = Some v"
proof -
  let ?x = "(q, r)"
  let ?g = "\<lambda>y. K (Some (matched ?x y)) y"
  have c: "(\<lambda>y. wordb (K (Some (matched ?x y))) y) = edge ?g"
    by (rule ext) (simp add: wordb_def edge_def)
  have "capture M (\<lambda>s. wordb (K (Some s))) ?x = None"
    using assms(1) by (simp add: capture_def c rejects_def)
  then show ?thesis
    using assms(2,3) by (simp add: wordb_def optGroup_def)
qed

lemma space_then:
  assumes "r \<noteq> []" and "\<not> isSpace (hd r)" and "k (CHR '' '' # q, r) = Some v"
  shows "star isSpace k (q, CHR '' '' # r) = Some v"
  using star_greedy[of "'' ''" isSpace r k q] assms by (simp add: isSpace_def)

lemma no_space_then:
  assumes "r \<noteq> []" and "\<not> isSpace (hd r)"
  shows "star isSpace k (q, r) = k (q, r)"
  using assms by (simp add: star_stop)

lemmas char_classes = isWordChar_def isSpace_def isDigit_def isLower_def isUpper_def isDot_def

lemma lit_on_token:
  assumes "w \<noteq> []" and "CHR '' '' \<notin> set w"
  shows "lit w (edge g) (q, t @ CHR '' '' # r) =
     (if pre w t \<and> hits w t then g (rev w @ q, drop (length w) t @ CHR '' '' # r) else None)"
proof (cases "length w \<le> length t")
  case True
  have tk: "take (length w) (t @ CHR '' '' # r) = take (length w) t"
    using True by simp
  have dr: "drop (length w) (t @ CHR '' '' # r) = drop (length w) t @ CHR '' '' # r"
    using True by simp
  have hdw: "hd (rev w @ q) = last w"
    using assms(1) by (simp add: hd_rev)
  have nx: "hd (drop (length w) t @ CHR '' '' # r) =
      (if length w < length t then t ! length w else CHR '' '')"
    using True by (cases "length w < length t") (simp_all add: hd_drop_conv_nth hd_append)
  have ne: "rev w @ q \<noteq> []" using assms(1) by simp
  have wb: "wordBoundary (rev w @ q, drop (length w) t @ CHR '' '' # r) = hits w t"
    using hdw nx ne
    by (cases "rev w @ q"; cases "drop (length w) t @ CHR '' '' # r")
       (auto simp add: wordBoundary_def hits_def isWordChar_def)
  show ?thesis
    unfolding lit_def prod.case tk dr by (simp add: pre_def edge_def wb)
next
  case False
  then have l: "length t < length w" by simp
  have nq: "take (length w) (t @ CHR '' '' # r) \<noteq> w"
  proof
    assume e: "take (length w) (t @ CHR '' '' # r) = w"
    have "w ! length t = (take (length w) (t @ CHR '' '' # r)) ! length t" using e by simp
    also have "\<dots> = CHR '' ''" using l by (simp add: nth_append)
    finally have "CHR '' '' \<in> set w" using l by (metis nth_mem)
    then show False using assms(2) by simp
  qed
  have np: "\<not> pre w t"
  proof
    assume "pre w t"
    then have "length (take (length w) t) = length w" by (simp add: pre_def)
    then show False using l by simp
  qed
  have "lit w (edge g) (q, t @ CHR '' '' # r) = None"
    by (simp only: lit_def prod.case nq if_False)
  then show ?thesis
    using np by simp
qed

lemma alt_lits_none:
  assumes "\<forall>w \<in> set ws. w \<noteq> [] \<and> CHR '' '' \<notin> set w" and "pick t ws = None"
  shows "alt (map lit ws) (edge g) (q, t @ CHR '' '' # r) = None"
  using assms
  by (induction ws) (auto simp add: pick_def lit_on_token split: if_splits)

lemma alt_lits_pick:
  assumes "\<forall>w \<in> set ws. w \<noteq> [] \<and> CHR '' '' \<notin> set w" and "pick t ws = Some w"
    and "g (rev w @ q, drop (length w) t @ CHR '' '' # r) \<noteq> None"
  shows "alt (map lit ws) (edge g) (q, t @ CHR '' '' # r)
     = g (rev w @ q, drop (length w) t @ CHR '' '' # r)"
  using assms
  by (induction ws) (auto simp add: pick_def lit_on_token orElse_first split: if_splits)

lemma takes_lits:
  assumes "\<forall>w \<in> set ws. w \<noteq> [] \<and> CHR '' '' \<notin> set w" and "pick t ws = Some t"
  shows "takes (alt (map lit ws)) q t (CHR '' '' # r)"
  unfolding takes_def
proof (intro allI impI)
  fix g :: "groups cont"
  assume "g (rev t @ q, CHR '' '' # r) \<noteq> None"
  then show "alt (map lit ws) (edge g) (q, t @ CHR '' '' # r) = g (rev t @ q, CHR '' '' # r)"
    using alt_lits_pick[OF assms, of g q r] by simp
qed

lemma rejects_lits:
  assumes "\<forall>w \<in> set ws. w \<noteq> [] \<and> CHR '' '' \<notin> set w" and "pick t ws = None"
  shows "rejects (alt (map lit ws)) q (t @ CHR '' '' # r)"
  unfolding rejects_def by (intro allI alt_lits_none[OF assms])

lemma rejects_lits_head:
  "\<forall>w \<in> set ws. w \<noteq> [] \<and> (r = [] \<or> hd w \<noteq> hd r) \<Longrightarrow> rejects (alt (map lit ws)) q r"
  by (simp add: rejects_def alt_lits_head)

lemma words_plain:
  "\<forall>w \<in> set styleWords. w \<noteq> [] \<and> CHR '' '' \<notin> set w"
  "\<forall>w \<in> set variantWords. w \<noteq> [] \<and> CHR '' '' \<notin> set w"
  "\<forall>w \<in> set weightWords. w \<noteq> [] \<and> CHR '' '' \<notin> set w"
  "\<forall>w \<in> set sizeWords. w \<noteq> [] \<and> CHR '' '' \<notin> set w"
  by (simp_all add: styleWords_def variantWords_def weightWords_def sizeWords_def)

lemma picked:
  "list_all (\<lambda>t. pick t styleWords = Some t) styleTokens"
  "list_all (\<lambda>t. pick t variantWords = Some t) variantTokens"
  "list_all (\<lambda>t. pick t weightWords = Some t) weightTokens"
  "list_all (\<lambda>t. pick t sizeWords = Some t) sizeTokens"
  by code_simp+

lemma passed:
  "list_all (\<lambda>t. pick t styleWords = None) (variantTokens @ weightTokens @ sizeTokens)"
  "list_all (\<lambda>t. pick t variantWords = None) (weightTokens @ sizeTokens)"
  "list_all (\<lambda>t. pick t weightWords = None) sizeTokens"
  by code_simp+

lemma token_shape:
  "list_all (\<lambda>t. t \<noteq> [] \<and> isWordChar (hd t) \<and> isWordChar (last t))
     (styleTokens @ variantTokens @ weightTokens @ sizeTokens)"
  by code_simp

lemma words_shape:
  "list_all (\<lambda>w. w \<noteq> [] \<and> CHR '' '' \<notin> set w \<and> (\<not> isDigit (hd w) \<or> list_all isDigit w)
      \<and> \<not> isUpper (hd w))
     (styleWords @ variantWords @ weightWords @ sizeWords)"
  by code_simp

lemma orElse_None [simp]: "orElse a None = a"
  by (cases a) simp_all

lemma upper_facts:
  "isUpper c \<Longrightarrow> isWordChar c \<and> \<not> isSpace c \<and> \<not> isDigit c \<and> \<not> isLower c
     \<and> CHR ''.'' \<noteq> c \<and> CHR ''%'' \<noteq> c"
  by (auto simp add: char_classes)

lemma lower_facts:
  "isLower c \<Longrightarrow> isWordChar c \<and> \<not> isDigit c \<and> CHR ''.'' \<noteq> c \<and> CHR ''%'' \<noteq> c"
  by (auto simp add: char_classes)

lemma digit_facts: "isDigit c \<Longrightarrow> isWordChar c"
  by (auto simp add: char_classes)

lemma word_facts: "isWordChar c \<Longrightarrow> \<not> isSpace c"
  by (auto simp add: char_classes)

lemma space_facts:
  "\<not> isWordChar (CHR '' '')" "\<not> isLower (CHR '' '')" "\<not> isDigit (CHR '' '')"
  "isSpace (CHR '' '')"
  by (simp_all add: char_classes)

lemma wordBoundary_fresh: "fresh q \<Longrightarrow> starts r \<Longrightarrow> wordBoundary (q, r)"
  by (cases q; cases r) (auto simp add: wordBoundary_def fresh_def starts_def)

lemma wordBoundary_after:
  "t \<noteq> [] \<Longrightarrow> isWordChar (last t) \<Longrightarrow> wordBoundary (rev t @ q, CHR '' '' # r)"
  by (cases t rule: rev_cases) (simp_all add: wordBoundary_def space_facts)

lemma fresh_space: "fresh (CHR '' '' # q)"
  by (simp add: fresh_def space_facts)

lemma family_capture:
  assumes "list_all isDot fam"
  shows "capture (star isDot) (\<lambda>m5. star isSpace (eos (\<lambda>_. Some (m1, m2, m3, m4, m5)))) (q, fam)
     = Some (m1, m2, m3, m4, fam)"
proof -
  let ?k = "\<lambda>y. star isSpace (eos (\<lambda>_. Some (m1, m2, m3, m4, matched (q, fam) y))) y"
  have e: "?k (rev fam @ q, []) = Some (m1, m2, m3, m4, fam)"
    by (simp add: eos_def matched_def)
  have "star isDot ?k (q, fam @ []) = ?k (rev fam @ q, [])"
    by (rule star_greedy) (use assms e in \<open>simp_all add: list_all_iff\<close>)
  then show ?thesis
    using e by (simp add: capture_def)
qed

lemma family_here:
  assumes "fam \<noteq> []" and "\<not> isSpace (hd fam)" and "list_all isDot fam"
  shows "familyK m1 m2 m3 m4 (q, fam) = Some (m1, m2, m3, m4, fam)"
  using assms by (simp add: familyK_def star_stop family_capture)

lemma family_spaced:
  assumes "fam \<noteq> []" and "\<not> isSpace (hd fam)" and "list_all isDot fam"
  shows "familyK m1 m2 m3 m4 (q, CHR '' '' # fam) = Some (m1, m2, m3, m4, fam)"
  unfolding familyK_def
  by (rule space_then) (use assms in \<open>simp_all add: family_capture\<close>)

lemma sizeNumber_parts:
  assumes "sizeNumber t"
  obtains ds u where "t = ds @ u" and "ds \<noteq> []" and "\<forall>c \<in> set ds. isDigit c"
    and "u \<noteq> []" and "\<not> isDigit (hd u)" and "\<forall>c \<in> set u. isLower c"
    and "2 \<le> length u" and "length u \<le> 5"
proof
  let ?ds = "takeWhile isDigit t" and ?u = "dropWhile isDigit t"
  show "t = ?ds @ ?u" by simp
  show "?ds \<noteq> []" using assms by (simp add: sizeNumber_def)
  show "\<forall>c \<in> set ?ds. isDigit c" by (auto dest: set_takeWhileD)
  have "2 \<le> length ?u" using assms by (simp add: sizeNumber_def)
  then show u: "?u \<noteq> []" by (metis list.size(3) not_numeral_le_zero)
  show "\<not> isDigit (hd ?u)" using u hd_dropWhile by blast
  show "\<forall>c \<in> set ?u. isLower c" using assms by (simp add: sizeNumber_def list_all_iff)
  show "2 \<le> length ?u" "length ?u \<le> 5" using assms by (simp_all add: sizeNumber_def)
qed

lemma sizeNumber_shape:
  assumes "sizeNumber t"
  shows "t \<noteq> []" and "isDigit (hd t)" and "isWordChar (hd t)" and "isWordChar (last t)"
    and "\<forall>c \<in> set t. isWordChar c" and "\<not> list_all isDigit t"
proof -
  obtain ds u where p: "t = ds @ u" "ds \<noteq> []" "\<forall>c \<in> set ds. isDigit c"
    "u \<noteq> []" "\<not> isDigit (hd u)" "\<forall>c \<in> set u. isLower c"
    using assms by (rule sizeNumber_parts)
  show "t \<noteq> []" using p by simp
  show d: "isDigit (hd t)" using p by (cases ds) simp_all
  show "isWordChar (hd t)" using d by (rule digit_facts)
  have "isLower (last u)" using p by simp
  then show "isWordChar (last t)" using p by (simp add: lower_facts)
  show "\<forall>c \<in> set t. isWordChar c" using p by (auto simp add: digit_facts lower_facts)
  have "hd u \<in> set t" using p by simp
  then show "\<not> list_all isDigit t" using p(5) by (auto simp add: list_all_iff)
qed

lemma pick_wordy:
  assumes "\<forall>c \<in> set t. isWordChar c" and "\<forall>w \<in> set ws. w \<noteq> []" and "t \<notin> set ws"
  shows "pick t ws = None"
proof -
  have "\<not> (pre w t \<and> hits w t)" if w: "w \<in> set ws" for w
  proof
    assume a: "pre w t \<and> hits w t"
    then have tk: "take (length w) t = w" by (simp add: pre_def)
    have ne: "w \<noteq> []" using w assms(2) by simp
    have "length (take (length w) t) = length w" using tk by simp
    then have le: "length w \<le> length t" by simp
    have "w \<noteq> t" using w assms(3) by auto
    then have lt: "length w < length t" using tk le by (cases "length w = length t") auto
    have "last w = w ! (length w - 1)" using ne by (simp add: last_conv_nth)
    also have "\<dots> = take (length w) t ! (length w - 1)" using tk by simp
    also have "\<dots> = t ! (length w - 1)" using ne by simp
    finally have "last w \<in> set t" using lt by (metis less_imp_diff_less nth_mem)
    then have 1: "isWordChar (last w)" using assms(1) by simp
    have "t ! length w \<in> set t" using lt by simp
    then have 2: "isWordChar (t ! length w)" using assms(1) by simp
    show False using a 1 2 lt by (simp add: hits_def)
  qed
  then show ?thesis
    by (auto simp add: pick_def find_None_iff)
qed

lemma sizeNumber_no_word:
  assumes "sizeNumber t"
  shows "t \<notin> set (styleWords @ variantWords @ weightWords @ sizeWords)"
proof
  assume "t \<in> set (styleWords @ variantWords @ weightWords @ sizeWords)"
  then have "\<not> isDigit (hd t) \<or> list_all isDigit t"
    using words_shape by (simp only: list_all_iff)
  then show False
    using sizeNumber_shape(2,6)[OF assms] by simp
qed

lemma sizeNumber_pick:
  assumes "sizeNumber t"
  shows "pick t styleWords = None" and "pick t variantWords = None"
    and "pick t weightWords = None" and "pick t sizeWords = None"
  using sizeNumber_no_word[OF assms] sizeNumber_shape(5)[OF assms] words_plain
  by (simp_all add: pick_wordy)

lemma takes_numeric:
  assumes "sizeNumber t"
  shows "takes sizeNumeric q t (CHR '' '' # r)"
  unfolding takes_def
proof (intro allI impI)
  fix g :: "groups cont"
  assume g: "g (rev t @ q, CHR '' '' # r) \<noteq> None"
  obtain ds u where p: "t = ds @ u" "ds \<noteq> []" "\<forall>c \<in> set ds. isDigit c"
    "u \<noteq> []" "\<not> isDigit (hd u)" "\<forall>c \<in> set u. isLower c" "2 \<le> length u" "length u \<le> 5"
    using assms by (rule sizeNumber_parts)
  let ?x = "(rev ds @ q, u @ CHR '' '' # r)"
  let ?y = "(rev u @ rev ds @ q, CHR '' '' # r)"
  have lu: "isLower (hd u)" "isLower (last u)" using p by simp_all
  have wb: "wordBoundary ?y"
    using wordBoundary_after[of u "rev ds @ q" r] p(4) lu(2) by (simp add: lower_facts)
  have eg: "edge g ?y = g (rev t @ q, CHR '' '' # r)"
    using wb p(1) by (simp add: edge_def)
  have a: "rep isLower 2 5 (edge g) ?x = edge g ?y"
    by (rule rep_greedy) (use p eg g in \<open>simp_all add: space_facts\<close>)
  have hu: "hd (u @ CHR '' '' # r) = hd u" using p(4) by simp
  have ne: "u @ CHR '' '' # r \<noteq> []" by simp
  have b: "lit ''%'' k ?x = None" for k :: "pos \<Rightarrow> 'a option"
    by (rule lit_head) (use lu(1) hu lower_facts[of "hd u"] in \<open>simp_all\<close>)
  have c: "lit ''.'' k ?x = None" for k :: "pos \<Rightarrow> 'a option"
    by (rule lit_head) (use lu(1) hu lower_facts[of "hd u"] in \<open>simp_all\<close>)
  let ?K = "opt (\<lambda>k'. lit ''.'' (star isDigit k')) (alt [lit ''%'', rep isLower 2 5] (edge g))"
  have k: "?K ?x = g (rev t @ q, CHR '' '' # r)"
    by (simp add: opt_def b c a eg)
  have "star isDigit ?K (q, ds @ u @ CHR '' '' # r) = ?K ?x"
    by (rule star_greedy) (use p k g hu in \<open>simp_all\<close>)
  then show "sizeNumeric (edge g) (q, t @ CHR '' '' # r) = g (rev t @ q, CHR '' '' # r)"
    using k p(1) by (simp add: sizeNumeric_def)
qed

lemma rejects_numeric:
  assumes "r \<noteq> []" and "isUpper (hd r)"
  shows "rejects sizeNumeric q r"
proof -
  obtain c r' where r: "r = c # r'" using assms(1) by (cases r) auto
  have u: "isUpper c" using assms(2) r by simp
  note f = upper_facts[OF u]
  have a: "rep isLower 2 5 k (q, c # r') = None" for k :: "pos \<Rightarrow> 'a option"
    by (rule rep_stop) (use f in simp_all)
  have b: "lit ''%'' k (q, c # r') = None" for k :: "pos \<Rightarrow> 'a option"
    by (rule lit_head) (use f in simp_all)
  have d: "lit ''.'' k (q, c # r') = None" for k :: "pos \<Rightarrow> 'a option"
    by (rule lit_head) (use f in simp_all)
  show ?thesis
    unfolding rejects_def sizeNumeric_def r
    using f by (simp add: opt_def a b d)
qed

lemma slot:
  fixes K :: "string option \<Rightarrow> groups cont"
  assumes "fresh q"
    and "\<And>t. v = Some t \<Longrightarrow> takes M q t (CHR '' '' # r) \<and> shaped t
           \<and> K (Some t) (rev t @ q, CHR '' '' # r) = Some res"
    and "v = None \<Longrightarrow> rejects M q r \<and> starts r \<and> K None (q, r) = Some res"
  shows "wordb (optGroup M (\<lambda>m. wordb (K m))) (q, lead v r) = Some res"
proof (cases v)
  case None
  then show ?thesis
    using assms(1,3) by (simp add: lead_def slot_skipped wordBoundary_fresh)
next
  case (Some t)
  note a = assms(2)[OF Some]
  have s: "starts (t @ CHR '' '' # r)" using a by (simp add: shaped_def starts_def)
  have "wordb (optGroup M (\<lambda>m. wordb (K m))) (q, t @ CHR '' '' # r) = Some res"
    by (rule slot_taken)
       (use a s assms(1) in \<open>simp_all add: wordBoundary_fresh wordBoundary_after shaped_def\<close>)
  then show ?thesis
    using Some by (simp add: lead_def)
qed

lemma stage_here:
  "starts r \<Longrightarrow> B (q, r) = Some res \<Longrightarrow> star isSpace B (q, r) = Some res"
  by (simp add: starts_def star_stop word_facts)

lemma stage_spaced:
  "starts r \<Longrightarrow> B (CHR '' '' # p, r) = Some res \<Longrightarrow> star isSpace B (p, CHR '' '' # r) = Some res"
  by (rule space_then) (simp_all add: starts_def word_facts)

lemma starts_lead: "among v shaped \<Longrightarrow> v = None \<longrightarrow> starts r \<Longrightarrow> starts (lead v r)"
  by (cases v) (simp_all add: among_def lead_def shaped_def starts_def)

lemma starts_family: "familyOk None fam \<Longrightarrow> starts fam"
  by (simp add: familyOk_def starts_def upper_facts)

lemma rejects_lead:
  assumes "\<forall>w \<in> set ws. w \<noteq> [] \<and> CHR '' '' \<notin> set w"
    and "among v (\<lambda>t. pick t ws = None)" and "v = None \<longrightarrow> rejects (alt (map lit ws)) q r"
  shows "rejects (alt (map lit ws)) q (lead v r)"
  using assms by (cases v) (simp_all add: among_def lead_def rejects_lits)

lemma rejects_family:
  assumes "\<forall>w \<in> set ws. w \<noteq> [] \<and> \<not> isUpper (hd w)" and "familyOk None fam"
  shows "rejects (alt (map lit ws)) q fam"
  by (rule rejects_lits_head) (use assms in \<open>auto simp add: familyOk_def\<close>)

lemma words_lower:
  "\<forall>w \<in> set styleWords. w \<noteq> [] \<and> \<not> isUpper (hd w)"
  "\<forall>w \<in> set variantWords. w \<noteq> [] \<and> \<not> isUpper (hd w)"
  "\<forall>w \<in> set weightWords. w \<noteq> [] \<and> \<not> isUpper (hd w)"
  "\<forall>w \<in> set sizeWords. w \<noteq> [] \<and> \<not> isUpper (hd w)"
  using words_shape by (simp_all add: list_all_iff)

lemma style_token:
  assumes "t \<in> set styleTokens"
  shows "pick t styleWords = Some t" and "shaped t"
  using assms picked(1) token_shape by (simp_all add: list_all_iff shaped_def)

lemma variant_token:
  assumes "t \<in> set variantTokens"
  shows "pick t variantWords = Some t" and "shaped t" and "pick t styleWords = None"
  using assms picked(2) token_shape passed(1) by (simp_all add: list_all_iff shaped_def)

lemma weight_token:
  assumes "t \<in> set weightTokens"
  shows "pick t weightWords = Some t" and "shaped t" and "pick t styleWords = None"
    and "pick t variantWords = None"
  using assms picked(3) token_shape passed(1,2) by (simp_all add: list_all_iff shaped_def)

lemma size_token:
  assumes "sizeTok t"
  shows "shaped t" and "pick t styleWords = None" and "pick t variantWords = None"
    and "pick t weightWords = None"
proof -
  consider "t \<in> set sizeTokens" | "sizeNumber t" using assms by (auto simp add: sizeTok_def)
  then have "shaped t \<and> pick t styleWords = None \<and> pick t variantWords = None
      \<and> pick t weightWords = None"
  proof cases
    case 1
    then show ?thesis
      using token_shape passed by (simp add: list_all_iff shaped_def)
  next
    case 2
    then show ?thesis
      by (simp add: sizeNumber_pick sizeNumber_shape shaped_def)
  qed
  then show "shaped t" and "pick t styleWords = None" and "pick t variantWords = None"
    and "pick t weightWords = None" by simp_all
qed

lemma takes_size:
  assumes "sizeTok t"
  shows "takes (alt (map lit sizeWords @ [sizeNumeric])) q t (CHR '' '' # r)"
proof -
  consider "t \<in> set sizeTokens" | "sizeNumber t" using assms by (auto simp add: sizeTok_def)
  then show ?thesis
  proof cases
    case 1
    then have "pick t sizeWords = Some t" using picked(4) by (simp add: list_all_iff)
    then have "takes (alt (map lit sizeWords)) q t (CHR '' '' # r)"
      using words_plain(4) by (simp add: takes_lits)
    then show ?thesis
      by (simp add: takes_def alt_append orElse_first)
  next
    case 2
    have "alt (map lit sizeWords) (edge g) (q, t @ CHR '' '' # r) = None"
      for g :: "groups cont"
      by (rule alt_lits_none[OF words_plain(4) sizeNumber_pick(4)[OF 2]])
    then show ?thesis
      using takes_numeric[OF 2, of q r] by (simp add: takes_def alt_append)
  qed
qed

lemma rejects_size:
  assumes "familyOk None fam"
  shows "rejects (alt (map lit sizeWords @ [sizeNumeric])) q fam"
proof -
  have "rejects (alt (map lit sizeWords)) q fam"
    using words_lower(4) assms by (rule rejects_family)
  moreover have "rejects sizeNumeric q fam"
    using assms by (simp add: rejects_numeric familyOk_def)
  ultimately show ?thesis
    by (simp add: rejects_def alt_append)
qed

lemma among_mono: "among v P \<Longrightarrow> (\<And>t. P t \<Longrightarrow> Q t) \<Longrightarrow> among v Q"
  by (cases v) (simp_all add: among_def)

lemma starts_size:
  assumes "among si sizeTok" and "familyOk si fam"
  shows "starts (lead si fam)"
proof (rule starts_lead)
  show "among si shaped" using assms(1) by (rule among_mono) (rule size_token(1))
  show "si = None \<longrightarrow> starts fam" using assms(2) by (auto intro: starts_family)
qed

lemma size_body:
  assumes "fresh q" and "among si sizeTok" and "familyOk si fam"
  shows "wordb (optGroup (alt (map lit sizeWords @ [sizeNumeric]))
      (\<lambda>m4. wordb (familyK m1 m2 m3 m4))) (q, lead si fam) = Some (m1, m2, m3, si, fam)"
proof (rule slot[OF assms(1)])
  fix t assume s: "si = Some t"
  then have t: "sizeTok t" using assms(2) by (simp add: among_def)
  have "familyK m1 m2 m3 (Some t) (rev t @ q, CHR '' '' # fam) = Some (m1, m2, m3, si, fam)"
    using assms(3) s by (simp add: familyOk_def family_spaced)
  then show "takes (alt (map lit sizeWords @ [sizeNumeric])) q t (CHR '' '' # fam) \<and> shaped t
      \<and> familyK m1 m2 m3 (Some t) (rev t @ q, CHR '' '' # fam) = Some (m1, m2, m3, si, fam)"
    using t by (simp add: takes_size size_token(1))
next
  assume s: "si = None"
  then have f: "familyOk None fam" using assms(3) by simp
  have "familyK m1 m2 m3 None (q, fam) = Some (m1, m2, m3, si, fam)"
    using f s by (simp add: familyOk_def family_here upper_facts)
  then show "rejects (alt (map lit sizeWords @ [sizeNumeric])) q fam \<and> starts fam
      \<and> familyK m1 m2 m3 None (q, fam) = Some (m1, m2, m3, si, fam)"
    using f by (simp add: rejects_size starts_family)
qed

lemma size_here:
  assumes "fresh q" and "among si sizeTok" and "familyOk si fam"
  shows "sizeK m1 m2 m3 (q, lead si fam) = Some (m1, m2, m3, si, fam)"
  unfolding sizeK_def
  by (rule stage_here) (use assms in \<open>simp_all add: starts_size size_body\<close>)

lemma size_spaced:
  assumes "among si sizeTok" and "familyOk si fam"
  shows "sizeK m1 m2 m3 (p, CHR '' '' # lead si fam) = Some (m1, m2, m3, si, fam)"
  unfolding sizeK_def
  by (rule stage_spaced) (use assms in \<open>simp_all add: starts_size size_body fresh_space\<close>)

lemma rejects_size_rest:
  assumes "\<forall>w \<in> set ws. w \<noteq> [] \<and> CHR '' '' \<notin> set w" and "\<forall>w \<in> set ws. w \<noteq> [] \<and> \<not> isUpper (hd w)"
    and "among si (\<lambda>t. pick t ws = None)" and "familyOk si fam"
  shows "rejects (alt (map lit ws)) q (lead si fam)"
  using assms(1,3)
proof (rule rejects_lead)
  show "si = None \<longrightarrow> rejects (alt (map lit ws)) q fam"
    using assms(2,4) by (auto intro: rejects_family)
qed

lemma weight_body:
  assumes "fresh q" and "among we (\<lambda>t. t \<in> set weightTokens)" and "among si sizeTok"
    and "familyOk si fam"
  shows "wordb (optGroup (alt (map lit weightWords)) (\<lambda>m3. wordb (sizeK m1 m2 m3)))
      (q, lead we (lead si fam)) = Some (m1, m2, we, si, fam)"
proof (rule slot[OF assms(1)])
  fix t assume s: "we = Some t"
  then have t: "t \<in> set weightTokens" using assms(2) by (simp add: among_def)
  show "takes (alt (map lit weightWords)) q t (CHR '' '' # lead si fam) \<and> shaped t
      \<and> sizeK m1 m2 (Some t) (rev t @ q, CHR '' '' # lead si fam) = Some (m1, m2, we, si, fam)"
    using weight_token(1,2)[OF t] words_plain(3) assms(3,4) s
    by (simp add: takes_lits size_spaced)
next
  assume s: "we = None"
  have a: "among si (\<lambda>t. pick t weightWords = None)"
    using assms(3) by (rule among_mono) (rule size_token(4))
  have "rejects (alt (map lit weightWords)) q (lead si fam)"
    using words_plain(3) words_lower(3) a assms(4) by (rule rejects_size_rest)
  then show "rejects (alt (map lit weightWords)) q (lead si fam) \<and> starts (lead si fam)
      \<and> sizeK m1 m2 None (q, lead si fam) = Some (m1, m2, we, si, fam)"
    using assms s by (simp add: starts_size size_here)
qed

lemma starts_weight:
  assumes "among we (\<lambda>t. t \<in> set weightTokens)" and "among si sizeTok" and "familyOk si fam"
  shows "starts (lead we (lead si fam))"
proof (rule starts_lead)
  show "among we shaped" using assms(1) by (rule among_mono) (rule weight_token(2))
  show "we = None \<longrightarrow> starts (lead si fam)" using assms(2,3) by (simp add: starts_size)
qed

lemma weight_here:
  assumes "fresh q" and "among we (\<lambda>t. t \<in> set weightTokens)" and "among si sizeTok"
    and "familyOk si fam"
  shows "weightK m1 m2 (q, lead we (lead si fam)) = Some (m1, m2, we, si, fam)"
  unfolding weightK_def
  by (rule stage_here) (use assms in \<open>simp_all add: starts_weight weight_body\<close>)

lemma weight_spaced:
  assumes "among we (\<lambda>t. t \<in> set weightTokens)" and "among si sizeTok" and "familyOk si fam"
  shows "weightK m1 m2 (p, CHR '' '' # lead we (lead si fam)) = Some (m1, m2, we, si, fam)"
  unfolding weightK_def
  by (rule stage_spaced) (use assms in \<open>simp_all add: starts_weight weight_body fresh_space\<close>)

lemma rejects_weight_rest:
  assumes "\<forall>w \<in> set ws. w \<noteq> [] \<and> CHR '' '' \<notin> set w" and "\<forall>w \<in> set ws. w \<noteq> [] \<and> \<not> isUpper (hd w)"
    and "among we (\<lambda>t. pick t ws = None)" and "among si (\<lambda>t. pick t ws = None)"
    and "familyOk si fam"
  shows "rejects (alt (map lit ws)) q (lead we (lead si fam))"
  using assms(1,3)
proof (rule rejects_lead)
  show "we = None \<longrightarrow> rejects (alt (map lit ws)) q (lead si fam)"
    using assms(1,2,4,5) by (simp add: rejects_size_rest)
qed

lemma variant_body:
  assumes "fresh q" and "among va (\<lambda>t. t \<in> set variantTokens)"
    and "among we (\<lambda>t. t \<in> set weightTokens)" and "among si sizeTok" and "familyOk si fam"
  shows "wordb (optGroup (alt (map lit variantWords)) (\<lambda>m2. wordb (weightK m1 m2)))
      (q, lead va (lead we (lead si fam))) = Some (m1, va, we, si, fam)"
proof (rule slot[OF assms(1)])
  fix t assume s: "va = Some t"
  then have t: "t \<in> set variantTokens" using assms(2) by (simp add: among_def)
  show "takes (alt (map lit variantWords)) q t (CHR '' '' # lead we (lead si fam)) \<and> shaped t
      \<and> weightK m1 (Some t) (rev t @ q, CHR '' '' # lead we (lead si fam))
        = Some (m1, va, we, si, fam)"
    using variant_token(1,2)[OF t] words_plain(2) assms(3,4,5) s
    by (simp add: takes_lits weight_spaced)
next
  assume s: "va = None"
  have a: "among we (\<lambda>t. pick t variantWords = None)"
    using assms(3) by (rule among_mono) (rule weight_token(4))
  have b: "among si (\<lambda>t. pick t variantWords = None)"
    using assms(4) by (rule among_mono) (rule size_token(3))
  have "rejects (alt (map lit variantWords)) q (lead we (lead si fam))"
    using words_plain(2) words_lower(2) a b assms(5) by (rule rejects_weight_rest)
  then show "rejects (alt (map lit variantWords)) q (lead we (lead si fam))
      \<and> starts (lead we (lead si fam))
      \<and> weightK m1 None (q, lead we (lead si fam)) = Some (m1, va, we, si, fam)"
    using assms s by (simp add: starts_weight weight_here)
qed

lemma starts_variant:
  assumes "among va (\<lambda>t. t \<in> set variantTokens)" and "among we (\<lambda>t. t \<in> set weightTokens)"
    and "among si sizeTok" and "familyOk si fam"
  shows "starts (lead va (lead we (lead si fam)))"
proof (rule starts_lead)
  show "among va shaped" using assms(1) by (rule among_mono) (rule variant_token(2))
  show "va = None \<longrightarrow> starts (lead we (lead si fam))"
    using assms(2,3,4) by (simp add: starts_weight)
qed

lemma variant_here:
  assumes "fresh q" and "among va (\<lambda>t. t \<in> set variantTokens)"
    and "among we (\<lambda>t. t \<in> set weightTokens)" and "among si sizeTok" and "familyOk si fam"
  shows "variantK m1 (q, lead va (lead we (lead si fam))) = Some (m1, va, we, si, fam)"
  unfolding variantK_def
  by (rule stage_here) (use assms in \<open>simp_all add: starts_variant variant_body\<close>)

lemma variant_spaced:
  assumes "among va (\<lambda>t. t \<in> set variantTokens)"
    and "among we (\<lambda>t. t \<in> set weightTokens)" and "among si sizeTok" and "familyOk si fam"
  shows "variantK m1 (p, CHR '' '' # lead va (lead we (lead si fam)))
     = Some (m1, va, we, si, fam)"
  unfolding variantK_def
  by (rule stage_spaced) (use assms in \<open>simp_all add: starts_variant variant_body fresh_space\<close>)

lemma rejects_variant_rest:
  assumes "\<forall>w \<in> set ws. w \<noteq> [] \<and> CHR '' '' \<notin> set w" and "\<forall>w \<in> set ws. w \<noteq> [] \<and> \<not> isUpper (hd w)"
    and "among va (\<lambda>t. pick t ws = None)" and "among we (\<lambda>t. pick t ws = None)"
    and "among si (\<lambda>t. pick t ws = None)" and "familyOk si fam"
  shows "rejects (alt (map lit ws)) q (lead va (lead we (lead si fam)))"
  using assms(1,3)
proof (rule rejects_lead)
  show "va = None \<longrightarrow> rejects (alt (map lit ws)) q (lead we (lead si fam))"
    using assms(1,2,4,5,6) by (simp add: rejects_weight_rest)
qed

lemma style_body:
  assumes "fresh q" and "canonicalFont st va we si fam"
  shows "wordb (optGroup (alt (map lit styleWords)) (\<lambda>m1. wordb (variantK m1)))
      (q, lead st (lead va (lead we (lead si fam)))) = Some (st, va, we, si, fam)"
proof (rule slot[OF assms(1)])
  note c = assms(2)[unfolded canonicalFont_def]
  fix t assume s: "st = Some t"
  then have t: "t \<in> set styleTokens" using c by (simp add: among_def)
  show "takes (alt (map lit styleWords)) q t (CHR '' '' # lead va (lead we (lead si fam)))
      \<and> shaped t
      \<and> variantK (Some t) (rev t @ q, CHR '' '' # lead va (lead we (lead si fam)))
        = Some (st, va, we, si, fam)"
    using style_token[OF t] words_plain(1) c s
    by (simp add: takes_lits variant_spaced)
next
  note c = assms(2)[unfolded canonicalFont_def]
  assume s: "st = None"
  have va: "among va (\<lambda>t. t \<in> set variantTokens)" and we: "among we (\<lambda>t. t \<in> set weightTokens)"
    and si: "among si sizeTok" and fam: "familyOk si fam"
    using c by simp_all
  have a: "among va (\<lambda>t. pick t styleWords = None)"
    using va by (rule among_mono) (rule variant_token(3))
  have b: "among we (\<lambda>t. pick t styleWords = None)"
    using we by (rule among_mono) (rule weight_token(3))
  have d: "among si (\<lambda>t. pick t styleWords = None)"
    using si by (rule among_mono) (rule size_token(2))
  have "rejects (alt (map lit styleWords)) q (lead va (lead we (lead si fam)))"
    using words_plain(1) words_lower(1) a b d fam by (rule rejects_variant_rest)
  then show "rejects (alt (map lit styleWords)) q (lead va (lead we (lead si fam)))
      \<and> starts (lead va (lead we (lead si fam)))
      \<and> variantK None (q, lead va (lead we (lead si fam))) = Some (st, va, we, si, fam)"
    using assms(1) va we si fam s by (simp add: starts_variant variant_here)
qed

lemma starts_style:
  assumes "canonicalFont st va we si fam"
  shows "starts (lead st (lead va (lead we (lead si fam))))"
proof (rule starts_lead)
  note c = assms[unfolded canonicalFont_def]
  show "among st shaped"
    by (rule among_mono[of st "\<lambda>t. t \<in> set styleTokens"]) (use c in simp, rule style_token(2))
  show "st = None \<longrightarrow> starts (lead va (lead we (lead si fam)))"
    using c by (simp add: starts_variant)
qed

lemma shorthand_lead:
  "fam \<noteq> [] \<Longrightarrow> shorthand st va we si fam = lead st (lead va (lead we (lead si fam)))"
  by (cases st; cases va; cases we; cases si; cases fam)
     (simp_all add: shorthand_def tok_def lead_def)

lemma fontRegex_canonical:
  assumes "canonicalFont st va we si fam"
  shows "fontRegex (shorthand st va we si fam) = Some (st, va, we, si, fam)"
proof -
  have f: "fam \<noteq> []" using assms by (simp add: canonicalFont_def familyOk_def)
  have "star isSpace (wordb (optGroup (alt (map lit styleWords)) (\<lambda>m1. wordb (variantK m1))))
      ([], lead st (lead va (lead we (lead si fam)))) = Some (st, va, we, si, fam)"
    by (rule stage_here) (use assms in \<open>simp_all add: starts_style style_body fresh_def\<close>)
  then show ?thesis
    using f by (simp add: fontRegex_def shorthand_lead)
qed

lemma pushUnless_tok:
  "among v (\<lambda>t. t \<noteq> [] \<and> t \<noteq> n) \<Longrightarrow> pushUnless (Some (orString v n)) n parts = parts @ tok v"
  by (cases v) (simp_all add: among_def pushUnless_def orString_def tok_def)

lemma style_not_neutral: "t \<in> set styleTokens \<Longrightarrow> t \<noteq> [] \<and> t \<noteq> ''normal''"
  by (auto simp add: styleTokens_def)

lemma variant_not_neutral: "t \<in> set variantTokens \<Longrightarrow> t \<noteq> [] \<and> t \<noteq> ''normal''"
  by (auto simp add: variantTokens_def)

lemma weight_not_neutral: "t \<in> set weightTokens \<Longrightarrow> t \<noteq> [] \<and> t \<noteq> ''normal''"
  by (auto simp add: weightTokens_def)

lemma size_not_neutral: "sizeTok t \<Longrightarrow> t \<noteq> [] \<and> t \<noteq> ''medium''"
proof -
  assume "sizeTok t"
  then consider "t \<in> set sizeTokens" | "sizeNumber t" by (auto simp add: sizeTok_def)
  then show ?thesis
  proof cases
    case 1
    then show ?thesis by (auto simp add: sizeTokens_def)
  next
    case 2
    have "\<not> isDigit (hd ''medium'')" by (simp add: isDigit_def)
    then show ?thesis using sizeNumber_shape(1,2)[OF 2] by auto
  qed
qed

lemma componentsToFont_canonical:
  assumes "canonicalFont st va we si fam"
  shows "componentsToFont \<lparr>font = f, fontStyle = Some (orString st ''normal''),
           fontVariant = Some (orString va ''normal''),
           fontWeight = Some (orString we ''normal''),
           fontSize = Some (orString si ''medium''), fontFamily = Some fam\<rparr>
     = shorthand st va we si fam"
proof -
  note c = assms[unfolded canonicalFont_def]
  have 1: "among st (\<lambda>t. t \<noteq> [] \<and> t \<noteq> ''normal'')"
    by (rule among_mono[of st "\<lambda>t. t \<in> set styleTokens"]) (use c in simp, rule style_not_neutral)
  have 2: "among va (\<lambda>t. t \<noteq> [] \<and> t \<noteq> ''normal'')"
    by (rule among_mono[of va "\<lambda>t. t \<in> set variantTokens"]) (use c in simp, rule variant_not_neutral)
  have 3: "among we (\<lambda>t. t \<noteq> [] \<and> t \<noteq> ''normal'')"
    by (rule among_mono[of we "\<lambda>t. t \<in> set weightTokens"]) (use c in simp, rule weight_not_neutral)
  have 4: "among si (\<lambda>t. t \<noteq> [] \<and> t \<noteq> ''medium'')"
    by (rule among_mono[of si sizeTok]) (use c in simp, rule size_not_neutral)
  have 5: "fam \<noteq> []" using c by (simp add: familyOk_def)
  show ?thesis
    by (simp add: componentsToFont_def pushUnless_tok[OF 1] pushUnless_tok[OF 2]
        pushUnless_tok[OF 3] pushUnless_tok[OF 4] pushIf_def 5 shorthand_def)
qed

text \<open>
  Where the round trip holds. Take a canonical shorthand: an optional style \<^verbatim>\<open>italic\<close> or
  \<^verbatim>\<open>oblique\<close>, an optional variant \<^verbatim>\<open>small-caps\<close>, an optional weight other than
  \<^verbatim>\<open>normal\<close>, an optional size that is a size keyword other than \<^verbatim>\<open>medium\<close> or digits
  followed by a unit of two to five lower-case letters, and a non-empty family on one line
  that starts with an upper-case letter, or with anything but white space when a size
  precedes it, the fields separated by one space. Then \<open>fontToComponents\<close> recovers
  exactly these fields, an absent one as \<^verbatim>\<open>normal\<close> or \<^verbatim>\<open>medium\<close>, and
  \<open>componentsToFont\<close> gives back the same string.
\<close>

theorem canonical_font_round_trip:
  assumes "canonicalFont st va we si fam"
  shows "fontToComponents (shorthand st va we si fam) =
       \<lparr>font = shorthand st va we si fam, fontStyle = Some (orString st ''normal''),
        fontVariant = Some (orString va ''normal''),
        fontWeight = Some (orString we ''normal''),
        fontSize = Some (orString si ''medium''), fontFamily = Some fam\<rparr>
     \<and> componentsToFont (fontToComponents (shorthand st va we si fam))
       = shorthand st va we si fam"
proof -
  have p: "fontToComponents (shorthand st va we si fam) =
       \<lparr>font = shorthand st va we si fam, fontStyle = Some (orString st ''normal''),
        fontVariant = Some (orString va ''normal''),
        fontWeight = Some (orString we ''normal''),
        fontSize = Some (orString si ''medium''), fontFamily = Some fam\<rparr>"
    by (simp add: fontToComponents_def fontRegex_canonical[OF assms])
  show ?thesis
    unfolding p using componentsToFont_canonical[OF assms] by simp
qed

theorem canonical_font_round_trip_witness:
  "canonicalFont (Some ''italic'') None (Some ''bold'') (Some ''20pt'') ''Arial Black''
   \<and> shorthand (Some ''italic'') None (Some ''bold'') (Some ''20pt'') ''Arial Black''
     = ''italic bold 20pt Arial Black''
   \<and> fontToComponents ''italic bold 20pt Arial Black'' =
       \<lparr>font = ''italic bold 20pt Arial Black'', fontStyle = Some ''italic'',
        fontVariant = Some ''normal'', fontWeight = Some ''bold'',
        fontSize = Some ''20pt'', fontFamily = Some ''Arial Black''\<rparr>
   \<and> componentsToFont (fontToComponents ''italic bold 20pt Arial Black'')
     = ''italic bold 20pt Arial Black''"
proof -
  have c: "canonicalFont (Some ''italic'') None (Some ''bold'') (Some ''20pt'') ''Arial Black''"
    by code_simp
  have s: "shorthand (Some ''italic'') None (Some ''bold'') (Some ''20pt'') ''Arial Black''
     = ''italic bold 20pt Arial Black''"
    by (simp add: shorthand_def tok_def)
  note r = canonical_font_round_trip[OF c, unfolded s]
  have p: "fontToComponents ''italic bold 20pt Arial Black'' =
       \<lparr>font = ''italic bold 20pt Arial Black'', fontStyle = Some ''italic'',
        fontVariant = Some ''normal'', fontWeight = Some ''bold'',
        fontSize = Some ''20pt'', fontFamily = Some ''Arial Black''\<rparr>"
    using conjunct1[OF r] by (simp add: orString_def)
  show ?thesis
    using c s p conjunct2[OF r] by (intro conjI)
qed


end
